theory Spec2Isabelle
  imports Complex_Main
begin

section \<open>Air Combat: the simulation core of \<open>GPT5-Thinking-Air-Combat.py\<close>\<close>

text \<open>
  Conventions of the embedding.
  \<^item> Python floats are modelled as exact reals, Python ints as \<open>int\<close>.
  \<^item> A sprite group is the list of its members in insertion order; \<open>kill()\<close> drops the
    member from the list. Two sprites with equal fields are two list entries.
  \<^item> The \<open>random\<close> module is an explicit source \<open>R :: nat \<Rightarrow> real\<close> of raw draws
    \<open>0 \<le> R k < 1\<close>; the field \<open>rng\<close> of the game state is the number of draws consumed.
  \<^item> Rendering draws nothing into the state and is modelled only where it consumes
    random draws (the camera-shake offset).
\<close>

subsection \<open>Config\<close>

definition WIDTH :: int where "WIDTH = 900"
definition HEIGHT :: int where "HEIGHT = 1200"

definition PLAYER_SPEED :: real where "PLAYER_SPEED = 480"
definition PLAYER_SPEED_SLOW :: real where "PLAYER_SPEED_SLOW = 260"
definition PLAYER_RADIUS :: int where "PLAYER_RADIUS = 22"
definition PLAYER_FIRE_COOLDOWN :: real where "PLAYER_FIRE_COOLDOWN = 16 / 100"
definition PLAYER_MAX_HP :: int where "PLAYER_MAX_HP = 5"
definition PLAYER_SHOT_SPEED :: real where "PLAYER_SHOT_SPEED = 900"
definition PLAYER_SHOT_DMG :: int where "PLAYER_SHOT_DMG = 1"

definition ENEMY_MIN_SPEED :: real where "ENEMY_MIN_SPEED = 110"
definition ENEMY_MAX_SPEED :: real where "ENEMY_MAX_SPEED = 220"
definition ENEMY_SPAWN_EVERY :: real where "ENEMY_SPAWN_EVERY = 55 / 100"
definition ENEMY_RADIUS :: int where "ENEMY_RADIUS = 18"
definition ENEMY_HP :: int where "ENEMY_HP = 2"

definition BOSS_HP :: int where "BOSS_HP = 120"
definition BOSS_SPEED :: real where "BOSS_SPEED = 120"
definition BOSS_RADIUS :: int where "BOSS_RADIUS = 80"
definition BOSS_COOLDOWN :: real where "BOSS_COOLDOWN = 9 / 10"

definition POWERUP_RADIUS :: int where "POWERUP_RADIUS = 16"
definition POWERUP_DROP_CHANCE :: real where "POWERUP_DROP_CHANCE = 10 / 100"
definition POWERUP_LIFETIME :: real where "POWERUP_LIFETIME = 10"

definition STAR_COUNT :: nat where "STAR_COUNT = 120"
definition SHAKE_DECAY :: real where "SHAKE_DECAY = 9 / 10"

type_synonym color = "int \<times> int \<times> int"

definition WHITE :: color where "WHITE = (240, 240, 240)"
definition YELLOW :: color where "YELLOW = (255, 210, 0)"
definition ORANGE :: color where "ORANGE = (255, 140, 0)"
definition RED :: color where "RED = (220, 60, 60)"
definition CYAN :: color where "CYAN = (80, 230, 230)"
definition GREEN :: color where "GREEN = (80, 220, 120)"
definition PURPLE :: color where "PURPLE = (190, 120, 255)"

subsection \<open>Library values: vectors, rectangles, random draws\<close>

text \<open>\<open>pygame.Vector2\<close>: a pair of floats.\<close>

type_synonym Vector2 = "real \<times> real"

definition vadd :: "Vector2 \<Rightarrow> Vector2 \<Rightarrow> Vector2" where
  "vadd a b = (fst a + fst b, snd a + snd b)"

definition vscale :: "Vector2 \<Rightarrow> real \<Rightarrow> Vector2" where
  "vscale a k = (fst a * k, snd a * k)"

definition length_squared :: "Vector2 \<Rightarrow> real" where
  "length_squared a = fst a * fst a + snd a * snd a"

definition normalize :: "Vector2 \<Rightarrow> Vector2" where
  "normalize a = (fst a / sqrt (length_squared a), snd a / sqrt (length_squared a))"

text \<open>Python's \<open>int()\<close> on a float truncates toward zero.\<close>

definition py_int :: "real \<Rightarrow> int" where
  "py_int r = (if 0 \<le> r then \<lfloor>r\<rfloor> else \<lceil>r\<rceil>)"

text \<open>
  \<open>pygame.Rect\<close> with integer left, top, width, height. Every rectangle of the
  program has positive width and height, so the normalisation pygame applies to
  negative sizes is not modelled.
\<close>

record Rect =
  rx :: int
  ry :: int
  rw :: int
  rh :: int

definition Rect_init :: "int \<Rightarrow> int \<Rightarrow> int \<Rightarrow> int \<Rightarrow> Rect" where
  "Rect_init l t w h = \<lparr>rx = l, ry = t, rw = w, rh = h\<rparr>"

definition center :: "Rect \<Rightarrow> int \<times> int" where
  "center r = (rx r + rw r div 2, ry r + rh r div 2)"

definition set_center :: "int \<times> int \<Rightarrow> Rect \<Rightarrow> Rect" where
  "set_center c r = r\<lparr>rx := fst c - rw r div 2, ry := snd c - rh r div 2\<rparr>"

definition collidepoint :: "Rect \<Rightarrow> int \<times> int \<Rightarrow> bool" where
  "collidepoint r p \<longleftrightarrow>
     rx r \<le> fst p \<and> fst p < rx r + rw r \<and> ry r \<le> snd p \<and> snd p < ry r + rh r"

definition colliderect :: "Rect \<Rightarrow> Rect \<Rightarrow> bool" where
  "colliderect a b \<longleftrightarrow>
     rx a < rx b + rw b \<and> ry a < ry b + rh b \<and> rx b < rx a + rw a \<and> ry b < ry a + rh a"

text \<open>
  The functions of \<open>random\<close> as functions of one raw draw \<open>u\<close> with \<open>0 \<le> u < 1\<close>.
\<close>

definition uniform :: "real \<Rightarrow> real \<Rightarrow> real \<Rightarrow> real" where
  "uniform a b u = a + (b - a) * u"

definition randrange :: "int \<Rightarrow> int \<Rightarrow> real \<Rightarrow> int" where
  "randrange a b u = a + \<lfloor>u * real_of_int (b - a)\<rfloor>"

definition choice :: "'a list \<Rightarrow> real \<Rightarrow> 'a" where
  "choice xs u = xs ! nat \<lfloor>u * real (length xs)\<rfloor>"

subsection \<open>Helpers\<close>

text \<open>\<open>Timer\<close>: a dataclass with the single field \<open>t\<close>.\<close>

type_synonym Timer = real

definition Timer_update :: "real \<Rightarrow> Timer \<Rightarrow> Timer" where
  "Timer_update dt t = max 0 (t - dt)"

definition Timer_ready :: "Timer \<Rightarrow> bool" where
  "Timer_ready t \<longleftrightarrow> t \<le> 0"

definition Timer_set :: "real \<Rightarrow> Timer \<Rightarrow> Timer" where
  "Timer_set sec t = sec"

text \<open>\<open>CameraShake\<close>: the single field \<open>power\<close>.\<close>

type_synonym CameraShake = real

definition bump :: "real \<Rightarrow> CameraShake \<Rightarrow> CameraShake" where
  "bump amt pw = min 30 (pw + amt)"

definition CameraShake_update :: "CameraShake \<Rightarrow> CameraShake" where
  "CameraShake_update pw = pw * SHAKE_DECAY"

text \<open>\<open>offset\<close> reads two draws when the power is at least 0.5; only the count matters here.\<close>

definition offset_draws :: "CameraShake \<Rightarrow> nat" where
  "offset_draws pw = (if pw < 1 / 2 then 0 else 2)"

subsection \<open>Entities\<close>

record Bullet =
  b_pos :: Vector2
  b_vel :: Vector2
  friendly :: bool
  dmg :: int
  b_color :: color
  b_radius :: int
  b_rect :: Rect

definition Bullet_init :: "Vector2 \<Rightarrow> Vector2 \<Rightarrow> bool \<Rightarrow> int \<Rightarrow> color \<Rightarrow> int \<Rightarrow> Bullet" where
  "Bullet_init pos vel fr d col radius =
     \<lparr>b_pos = pos, b_vel = vel, friendly = fr, dmg = d, b_color = col, b_radius = radius,
      b_rect = Rect_init 0 0 (radius * 2) (radius * 2)\<rparr>"

text \<open>
  An entity's \<open>update\<close> returns the updated entity and whether it is still alive
  (\<open>False\<close> where the source calls \<open>self.kill()\<close>).
\<close>

definition Bullet_update :: "real \<Rightarrow> Bullet \<Rightarrow> bool \<times> Bullet" where
  "Bullet_update dt b =
     (let pos = vadd (b_pos b) (vscale (b_vel b) dt);
          b' = b\<lparr>b_pos := pos, b_rect := set_center (py_int (fst pos), py_int (snd pos)) (b_rect b)\<rparr>
      in (\<not> (snd pos < - 40 \<or> snd pos > real_of_int HEIGHT + 40
              \<or> fst pos < - 40 \<or> fst pos > real_of_int WIDTH + 40), b'))"

record Explosion =
  x_pos :: Vector2
  x_timer :: real
  x_color :: color
  max_r :: int
  x_rect :: Rect

definition Explosion_init :: "Vector2 \<Rightarrow> color \<Rightarrow> real \<Rightarrow> Explosion" where
  "Explosion_init pos col duration =
     \<lparr>x_pos = pos, x_timer = duration, x_color = col, max_r = 36,
      x_rect = set_center (py_int (fst pos), py_int (snd pos)) (Rect_init 0 0 (36 * 2) (36 * 2))\<rparr>"

definition Explosion_update :: "real \<Rightarrow> Explosion \<Rightarrow> bool \<times> Explosion" where
  "Explosion_update dt fx =
     (let fx' = fx\<lparr>x_timer := x_timer fx - dt\<rparr> in (\<not> x_timer fx' \<le> 0, fx'))"

record FloatingText =
  f_pos :: Vector2
  f_text :: string
  f_color :: color
  f_timer :: real
  f_v :: Vector2

definition FloatingText_init :: "Vector2 \<Rightarrow> string \<Rightarrow> color \<Rightarrow> FloatingText" where
  "FloatingText_init pos txt col =
     \<lparr>f_pos = pos, f_text = txt, f_color = col, f_timer = 1, f_v = (0, - 50)\<rparr>"

definition FloatingText_update :: "real \<Rightarrow> FloatingText \<Rightarrow> bool \<times> FloatingText" where
  "FloatingText_update dt ft =
     (let ft' = ft\<lparr>f_timer := f_timer ft - dt, f_pos := vadd (f_pos ft) (vscale (f_v ft) dt)\<rparr>
      in (\<not> f_timer ft' \<le> 0, ft'))"

record PowerUp =
  kind :: string
  p_color :: color
  p_pos :: Vector2
  p_timer :: real
  p_rect :: Rect
  p_vel :: Vector2

definition TYPES :: "string list" where
  "TYPES = [''shield'', ''rapid'', ''heal'']"

definition COLORS :: "string \<Rightarrow> color" where
  "COLORS k = (if k = ''shield'' then CYAN else if k = ''rapid'' then PURPLE else GREEN)"

text \<open>\<open>PowerUp(pos)\<close> reads three draws: the kind, then the two velocity components.\<close>

definition PowerUp_init :: "(nat \<Rightarrow> real) \<Rightarrow> nat \<Rightarrow> Vector2 \<Rightarrow> PowerUp" where
  "PowerUp_init R n pos =
     (let k = choice TYPES (R n) in
      \<lparr>kind = k, p_color = COLORS k, p_pos = pos, p_timer = POWERUP_LIFETIME,
       p_rect = set_center (py_int (fst pos), py_int (snd pos))
                  (Rect_init 0 0 (POWERUP_RADIUS * 2) (POWERUP_RADIUS * 2)),
       p_vel = (uniform (- 40) 40 (R (n + 1)), uniform 40 120 (R (n + 2)))\<rparr>)"

definition PowerUp_update :: "real \<Rightarrow> PowerUp \<Rightarrow> bool \<times> PowerUp" where
  "PowerUp_update dt p =
     (let timer = p_timer p - dt;
          pos = vadd (p_pos p) (vscale (p_vel p) dt);
          vel = (fst (p_vel p), min (snd (p_vel p) + 50 * dt) 160);
          p' = p\<lparr>p_timer := timer, p_pos := pos, p_vel := vel,
                 p_rect := set_center (py_int (fst pos), py_int (snd pos)) (p_rect p)\<rparr>
      in (\<not> (timer \<le> 0 \<or> snd pos > real_of_int HEIGHT + 50), p'))"

record Enemy =
  e_pos :: Vector2
  e_hp :: int
  speed :: real
  e_rect :: Rect
  shoot_t :: Timer

text \<open>\<open>Enemy(pos)\<close> reads two draws: the speed, then the first shooting delay.\<close>

definition Enemy_init :: "(nat \<Rightarrow> real) \<Rightarrow> nat \<Rightarrow> Vector2 \<Rightarrow> Enemy" where
  "Enemy_init R n pos =
     \<lparr>e_pos = pos, e_hp = ENEMY_HP, speed = uniform ENEMY_MIN_SPEED ENEMY_MAX_SPEED (R n),
      e_rect = set_center (py_int (fst pos), py_int (snd pos))
                 (Rect_init 0 0 (ENEMY_RADIUS * 2) (ENEMY_RADIUS * 2)),
      shoot_t = Timer_set (uniform (8 / 10) (16 / 10) (R (n + 1))) 0\<rparr>"

text \<open>
  \<open>Enemy.update(dt, bullets, effects)\<close>: the result is the liveness flag, the enemy,
  the bullet group it may have appended to, and the draw counter.
\<close>

definition Enemy_update ::
  "(nat \<Rightarrow> real) \<Rightarrow> real \<Rightarrow> Enemy \<Rightarrow> Bullet list \<Rightarrow> nat \<Rightarrow> bool \<times> Enemy \<times> Bullet list \<times> nat" where
  "Enemy_update R dt e bullets n =
     (let pos = (fst (e_pos e), snd (e_pos e) + speed e * dt);
          rect = set_center (py_int (fst pos), py_int (snd pos)) (e_rect e);
          st = Timer_update dt (shoot_t e);
          fires = Timer_ready st;
          st' = (if fires then Timer_set (uniform (11 / 10) 2 (R n)) st else st);
          bullets' = (if fires
                      then bullets @ [Bullet_init (vadd pos (0, real_of_int ENEMY_RADIUS)) (0, 320)
                                        False 1 RED 5]
                      else bullets);
          n' = (if fires then n + 1 else n)
      in (\<not> snd pos > real_of_int HEIGHT + 40,
          e\<lparr>e_pos := pos, e_rect := rect, shoot_t := st'\<rparr>, bullets', n'))"

record Boss =
  o_pos :: Vector2
  o_rect :: Rect
  o_hp :: int
  state :: string
  cool :: Timer
  target_x :: real

definition Boss_init :: Boss where
  "Boss_init =
     \<lparr>o_pos = (real_of_int WIDTH / 2, - 120),
      o_rect = Rect_init 0 0 (BOSS_RADIUS * 2) (BOSS_RADIUS * 2),
      o_hp = BOSS_HP, state = ''enter'', cool = Timer_set BOSS_COOLDOWN 0,
      target_x = real_of_int WIDTH / 2\<rparr>"

text \<open>
  The radial burst of the fighting boss: bullet \<open>i\<close> of 14 reads draw \<open>n + i\<close> for its
  angular jitter. \<open>math.tau\<close> is \<open>2 * pi\<close>.
\<close>

definition burst_bullet :: "(nat \<Rightarrow> real) \<Rightarrow> nat \<Rightarrow> Vector2 \<Rightarrow> nat \<Rightarrow> Bullet" where
  "burst_bullet R n pos i =
     (let ang = real i * (2 * pi / 14) + uniform (- (5 / 100)) (5 / 100) (R (n + i))
      in Bullet_init pos (vscale (cos ang, sin ang) 260) False 1 ORANGE 6)"

definition radial_burst :: "(nat \<Rightarrow> real) \<Rightarrow> nat \<Rightarrow> Vector2 \<Rightarrow> Bullet list" where
  "radial_burst R n pos = map (burst_bullet R n pos) [0..<14]"

text \<open>\<open>math.copysign(1, d)\<close> for a real \<open>d\<close> (no negative zero).\<close>

definition copysign1 :: "real \<Rightarrow> real" where
  "copysign1 d = (if 0 \<le> d then 1 else - 1)"

definition death_explosions :: "(nat \<Rightarrow> real) \<Rightarrow> nat \<Rightarrow> Vector2 \<Rightarrow> real \<Rightarrow> real \<Rightarrow> nat \<Rightarrow> Explosion list" where
  "death_explosions R n pos ax ay k =
     map (\<lambda>i. Explosion_init
                (vadd pos (uniform (- ax) ax (R (n + 2 * i)), uniform (- ay) ay (R (n + 2 * i + 1))))
                ORANGE (35 / 100)) [0..<k]"

text \<open>
  \<open>Boss.update(dt, bullets, effects)\<close>: the result is the liveness flag, the boss, the
  hostile bullet group, the effects group and the draw counter.
\<close>

definition Boss_update ::
  "(nat \<Rightarrow> real) \<Rightarrow> real \<Rightarrow> Boss \<Rightarrow> Bullet list \<Rightarrow> Explosion list \<Rightarrow> nat
     \<Rightarrow> bool \<times> Boss \<times> Bullet list \<times> Explosion list \<times> nat" where
  "Boss_update R dt bs bullets effects n =
     (let (bs1, bullets1, n1) =
            (if state bs = ''enter'' then
               (let pos = (fst (o_pos bs), snd (o_pos bs) + 100 * dt)
                in (bs\<lparr>o_pos := pos, state := (if snd pos \<ge> 200 then ''fight'' else state bs)\<rparr>,
                    bullets, n))
             else if state bs = ''fight'' then
               (let retarget = \<bar>fst (o_pos bs) - target_x bs\<bar> < 10;
                    tx = (if retarget then uniform 120 (real_of_int WIDTH - 120) (R n) else target_x bs);
                    na = (if retarget then n + 1 else n);
                    dx = copysign1 (tx - fst (o_pos bs));
                    pos = (fst (o_pos bs) + dx * BOSS_SPEED * dt, snd (o_pos bs));
                    cl = Timer_update dt (cool bs);
                    fires = Timer_ready cl
                in (bs\<lparr>o_pos := pos, target_x := tx,
                       cool := (if fires then Timer_set BOSS_COOLDOWN cl else cl)\<rparr>,
                    (if fires then bullets @ radial_burst R na pos else bullets),
                    (if fires then na + 14 else na)))
             else (bs, bullets, n));
          bs2 = bs1\<lparr>o_rect := set_center (py_int (fst (o_pos bs1)), py_int (snd (o_pos bs1))) (o_rect bs1)\<rparr>
      in if o_hp bs2 \<le> 0
         then (False, bs2, bullets1, effects @ death_explosions R n1 (o_pos bs2) 60 40 8, n1 + 16)
         else (True, bs2, bullets1, effects, n1))"

record Player =
  pos :: Vector2
  vel :: Vector2
  rect :: Rect
  hp :: int
  invuln :: real
  fire_t :: Timer
  rapid_timer :: real
  shield_timer :: real
  score :: int

definition Player_init :: Player where
  "Player_init =
     (let p = (real_of_int WIDTH / 2, real_of_int HEIGHT - 140) in
      \<lparr>pos = p, vel = (0, 0),
       rect = set_center (py_int (fst p), py_int (snd p))
                (Rect_init 0 0 (PLAYER_RADIUS * 2) (PLAYER_RADIUS * 2)),
       hp = PLAYER_MAX_HP, invuln = 0, fire_t = 0, rapid_timer = 0, shield_timer = 0,
       score = 0\<rparr>)"

datatype key =
  K_LSHIFT | K_RSHIFT | K_LEFT | K_a | K_RIGHT | K_d | K_UP | K_w | K_DOWN | K_s
  | K_SPACE | K_ESCAPE | K_p | K_other

definition Player_update :: "real \<Rightarrow> (key \<Rightarrow> bool) \<Rightarrow> Player \<Rightarrow> Player" where
  "Player_update dt pressed p =
     (let spd = (if pressed K_LSHIFT \<or> pressed K_RSHIFT then PLAYER_SPEED_SLOW else PLAYER_SPEED);
          v0 = (0, 0);
          v1 = (if pressed K_LEFT \<or> pressed K_a then (fst v0 - 1, snd v0) else v0);
          v2 = (if pressed K_RIGHT \<or> pressed K_d then (fst v1 + 1, snd v1) else v1);
          v3 = (if pressed K_UP \<or> pressed K_w then (fst v2, snd v2 - 1) else v2);
          v4 = (if pressed K_DOWN \<or> pressed K_s then (fst v3, snd v3 + 1) else v3);
          v = (if length_squared v4 > 0 then vscale (normalize v4) spd else v4);
          q = vadd (pos p) (vscale v dt);
          qx = max 40 (min (real_of_int WIDTH - 40) (fst q));
          qy = max 150 (min (real_of_int HEIGHT - 40) (snd q))
      in p\<lparr>pos := (qx, qy), vel := v,
            rect := set_center (py_int qx, py_int qy) (rect p),
            fire_t := Timer_update dt (fire_t p),
            invuln := max 0 (invuln p - dt),
            rapid_timer := max 0 (rapid_timer p - dt),
            shield_timer := max 0 (shield_timer p - dt)\<rparr>)"

text \<open>\<open>Player.try_fire(bullets)\<close>: the triple shot, appended to the group passed in.\<close>

definition shot :: "Player \<Rightarrow> real \<Rightarrow> Bullet" where
  "shot p dx =
     Bullet_init (vadd (pos p) (dx, - real_of_int PLAYER_RADIUS)) (dx * 8, - PLAYER_SHOT_SPEED)
       True PLAYER_SHOT_DMG YELLOW 5"

definition try_fire :: "Player \<Rightarrow> Bullet list \<Rightarrow> Player \<times> Bullet list" where
  "try_fire p bullets =
     (if \<not> Timer_ready (fire_t p) then (p, bullets)
      else (let cd = PLAYER_FIRE_COOLDOWN * (if rapid_timer p > 0 then 45 / 100 else 1)
            in (p\<lparr>fire_t := Timer_set cd (fire_t p)\<rparr>,
                bullets @ map (shot p) [- 14, 0, 14])))"

subsection \<open>Game\<close>

record Game =
  player :: Player
  all_bullets :: "Bullet list"
  enemy_bullets :: "Bullet list"
  enemies :: "Enemy list"
  powerups :: "PowerUp list"
  effects :: "Explosion list"
  floaters :: "FloatingText list"
  boss :: "Boss option"
  spawn_t :: Timer
  time :: real
  running :: bool
  paused :: bool
  game_over :: bool
  shake :: CameraShake
  stars :: "Vector2 list"
  star_speed :: "real list"
  rng :: nat

text \<open>
  \<open>Game.reset\<close>: \<open>boss\<close> is a \<open>GroupSingle\<close>, a group of at most one sprite, modelled as
  an option. Star \<open>i\<close> reads draws \<open>n + 2 i\<close> and \<open>n + 2 i + 1\<close>, then speed \<open>i\<close> reads
  draw \<open>n + 2 STAR_COUNT + i\<close>.
\<close>

definition reset :: "(nat \<Rightarrow> real) \<Rightarrow> nat \<Rightarrow> Game" where
  "reset R n =
     \<lparr>player = Player_init, all_bullets = [], enemy_bullets = [], enemies = [], powerups = [],
      effects = [], floaters = [], boss = None,
      spawn_t = Timer_set 1 0, time = 0, running = True, paused = False, game_over = False,
      shake = 0,
      stars = map (\<lambda>i. (real_of_int (randrange 0 WIDTH (R (n + 2 * i))),
                         real_of_int (randrange 0 HEIGHT (R (n + 2 * i + 1))))) [0..<STAR_COUNT],
      star_speed = map (\<lambda>i. uniform 60 200 (R (n + 2 * STAR_COUNT + i))) [0..<STAR_COUNT],
      rng = n + 3 * STAR_COUNT\<rparr>"

text \<open>The fire action on the game: \<open>self.player.try_fire(self.all_bullets)\<close>.\<close>

definition fire :: "Game \<Rightarrow> Game" where
  "fire g = (let (p, bs) = try_fire (player g) (all_bullets g)
             in g\<lparr>player := p, all_bullets := bs\<rparr>)"

subsubsection \<open>Timers, star field, shake\<close>

definition star_step :: "(nat \<Rightarrow> real) \<Rightarrow> real \<Rightarrow> Vector2 \<Rightarrow> real \<Rightarrow> nat \<Rightarrow> Vector2 \<times> nat" where
  "star_step R dt s v n =
     (let y = snd s + v * dt
      in if y > real_of_int HEIGHT then ((real_of_int (randrange 0 WIDTH (R n)), - 5), n + 1)
         else ((fst s, y), n))"

text \<open>
  The loop \<open>for i, s in enumerate(self.stars)\<close> reads \<open>self.star_speed[i]\<close>; both lists are
  built with \<open>STAR_COUNT\<close> entries by \<open>reset\<close> and never change length, so the last
  equation (a star without a speed) is never reached from \<open>reset\<close>.
\<close>

fun stars_loop :: "(nat \<Rightarrow> real) \<Rightarrow> real \<Rightarrow> Vector2 list \<Rightarrow> real list \<Rightarrow> nat \<Rightarrow> Vector2 list \<times> nat" where
  "stars_loop R dt (s # ss) (v # vs) n =
     (let (s', n') = star_step R dt s v n;
          (ss', n'') = stars_loop R dt ss vs n'
      in (s' # ss', n''))"
| "stars_loop R dt ss vs n = (ss, n)"

definition update_timers :: "(nat \<Rightarrow> real) \<Rightarrow> real \<Rightarrow> Game \<Rightarrow> Game" where
  "update_timers R dt g =
     (let (ss, n) = stars_loop R dt (stars g) (star_speed g) (rng g)
      in g\<lparr>time := time g + dt, spawn_t := Timer_update dt (spawn_t g),
            shake := CameraShake_update (shake g), stars := ss, rng := n\<rparr>)"

subsubsection \<open>Spawn enemies, boss spawn logic\<close>

definition spawn_enemies :: "(nat \<Rightarrow> real) \<Rightarrow> Game \<Rightarrow> Game" where
  "spawn_enemies R g =
     (if Timer_ready (spawn_t g) then
        g\<lparr>spawn_t := Timer_set (max (25 / 100) (ENEMY_SPAWN_EVERY - min (3 / 10) (time g / 120)))
                       (spawn_t g),
          enemies := enemies g @
            [Enemy_init R (rng g + 1)
               (real_of_int (randrange 40 (WIDTH - 40) (R (rng g))), - 40)],
          rng := rng g + 3\<rparr>
      else g)"

definition boss_spawn :: "Game \<Rightarrow> Game" where
  "boss_spawn g =
     (if time g > 50 \<and> boss g = None then
        (if score (player g) > 400 \<or> time g > 65 then g\<lparr>boss := Some Boss_init\<rparr> else g)
      else g)"

subsubsection \<open>Update groups\<close>

text \<open>
  \<open>for b in list(self.all_bullets)\<close>: the bullet is updated (and possibly killed); a
  hostile one is then added to \<open>enemy_bullets\<close>, also when the update has just killed it,
  and removed from \<open>all_bullets\<close>. The accumulator is the pair of the friendly bullets kept
  and the hostile group.
\<close>

fun all_bullets_loop :: "real \<Rightarrow> Bullet list \<Rightarrow> Bullet list \<times> Bullet list \<Rightarrow> Bullet list \<times> Bullet list" where
  "all_bullets_loop dt [] acc = acc"
| "all_bullets_loop dt (b # bs) (kept, eb) =
     (let (alive, b') = Bullet_update dt b
      in if \<not> friendly b' then all_bullets_loop dt bs (kept, eb @ [b'])
         else all_bullets_loop dt bs (if alive then kept @ [b'] else kept, eb))"

text \<open>\<open>for s in list(group): s.update(dt)\<close> for a group whose members only move and expire.\<close>

definition update_all :: "('a \<Rightarrow> bool \<times> 'a) \<Rightarrow> 'a list \<Rightarrow> 'a list" where
  "update_all upd xs = map snd (filter fst (map upd xs))"

fun enemies_loop ::
  "(nat \<Rightarrow> real) \<Rightarrow> real \<Rightarrow> Enemy list \<Rightarrow> Enemy list \<times> Bullet list \<times> nat
     \<Rightarrow> Enemy list \<times> Bullet list \<times> nat" where
  "enemies_loop R dt [] acc = acc"
| "enemies_loop R dt (e # es) (kept, bullets, n) =
     (let (alive, e', bullets', n') = Enemy_update R dt e bullets n
      in enemies_loop R dt es (if alive then kept @ [e'] else kept, bullets', n'))"

definition update_groups :: "(nat \<Rightarrow> real) \<Rightarrow> real \<Rightarrow> Game \<Rightarrow> Game" where
  "update_groups R dt g =
     (let (ab, eb0) = all_bullets_loop dt (all_bullets g) ([], enemy_bullets g);
          eb1 = update_all (Bullet_update dt) eb0;
          (es, eb2, n1) = enemies_loop R dt (enemies g) ([], eb1, rng g);
          ps = update_all (PowerUp_update dt) (powerups g);
          fx = update_all (Explosion_update dt) (effects g);
          fl = update_all (FloatingText_update dt) (floaters g);
          g1 = g\<lparr>all_bullets := ab, enemy_bullets := eb2, enemies := es, powerups := ps,
                 effects := fx, floaters := fl, rng := n1\<rparr>
      in case boss g1 of
           None \<Rightarrow> g1
         | Some bs \<Rightarrow>
             (let (alive, bs', eb3, fx', n2) = Boss_update R dt bs eb2 fx n1
              in g1\<lparr>boss := (if alive then Some bs' else None), enemy_bullets := eb3,
                     effects := fx', rng := n2\<rparr>))"

subsubsection \<open>Collisions: player bullets vs enemies/boss\<close>

text \<open>The collision test of the source: the centre of the bullet's rectangle inside the target's.\<close>

definition hits :: "Bullet \<Rightarrow> Rect \<Rightarrow> bool" where
  "hits b r \<longleftrightarrow> collidepoint r (center (b_rect b))"

definition boss_hit :: "Bullet \<Rightarrow> Boss \<Rightarrow> Game \<Rightarrow> Game" where
  "boss_hit b bs g =
     g\<lparr>boss := Some (bs\<lparr>o_hp := o_hp bs - dmg b\<rparr>),
       effects := effects g @ [Explosion_init (b_pos b) YELLOW (2 / 10)],
       player := (player g)\<lparr>score := score (player g) + 2\<rparr>,
       shake := bump (12 / 10) (shake g)\<rparr>"

text \<open>
  The body of \<open>for e in hit_list\<close> for one enemy of the hit list: the result is the enemy
  if it survives and the game with the effects of the hit.
\<close>

definition enemy_hit :: "(nat \<Rightarrow> real) \<Rightarrow> Bullet \<Rightarrow> Enemy \<Rightarrow> Game \<Rightarrow> Enemy option \<times> Game" where
  "enemy_hit R b e g =
     (let e' = e\<lparr>e_hp := e_hp e - dmg b\<rparr>;
          g1 = g\<lparr>effects := effects g @ [Explosion_init (b_pos b) ORANGE (2 / 10)]\<rparr>
      in if e_hp e' \<le> 0 then
           (let g2 = g1\<lparr>player := (player g1)\<lparr>score := score (player g1) + 10\<rparr>,
                        floaters := floaters g1 @ [FloatingText_init (e_pos e') ''+10'' YELLOW],
                        shake := bump 5 (shake g1)\<rparr>
            in (None,
                if R (rng g2) < POWERUP_DROP_CHANCE
                then g2\<lparr>powerups := powerups g2 @ [PowerUp_init R (rng g2 + 1) (e_pos e')],
                        rng := rng g2 + 4\<rparr>
                else g2\<lparr>rng := rng g2 + 1\<rparr>))
         else (Some e', g1))"

text \<open>
  One pass over the enemy group in its order for one bullet: the enemies that the bullet
  hits are the \<open>hit_list\<close>; the others are kept untouched.
\<close>

fun hit_list_loop :: "(nat \<Rightarrow> real) \<Rightarrow> Bullet \<Rightarrow> Enemy list \<Rightarrow> Game \<Rightarrow> Enemy list \<times> Game" where
  "hit_list_loop R b [] g = ([], g)"
| "hit_list_loop R b (e # es) g =
     (if hits b (e_rect e) then
        (let (r, g1) = enemy_hit R b e g;
             (es', g2) = hit_list_loop R b es g1
         in ((case r of None \<Rightarrow> es' | Some e' \<Rightarrow> e' # es'), g2))
      else (let (es', g2) = hit_list_loop R b es g in (e # es', g2)))"

text \<open>
  The body of the loop over the friendly bullets for one bullet: the result says whether
  the bullet stays in its group.
\<close>

definition shot_step :: "(nat \<Rightarrow> real) \<Rightarrow> Bullet \<Rightarrow> Game \<Rightarrow> bool \<times> Game" where
  "shot_step R b g =
     (case boss g of
        Some bs \<Rightarrow>
          if hits b (o_rect bs) then (False, boss_hit b bs g)
          else if \<exists>e \<in> set (enemies g). hits b (e_rect e) then
            (let (es, g1) = hit_list_loop R b (enemies g) g in (False, g1\<lparr>enemies := es\<rparr>))
          else (True, g)
      | None \<Rightarrow>
          if \<exists>e \<in> set (enemies g). hits b (e_rect e) then
            (let (es, g1) = hit_list_loop R b (enemies g) g in (False, g1\<lparr>enemies := es\<rparr>))
          else (True, g))"

text \<open>
  \<open>for b in [bb for bb in self.all_bullets if bb.friendly]\<close>: a bullet that is not friendly
  is not in the snapshot and stays in the group.
\<close>

fun shots_loop :: "(nat \<Rightarrow> real) \<Rightarrow> Bullet list \<Rightarrow> Game \<Rightarrow> Bullet list \<times> Game" where
  "shots_loop R [] g = ([], g)"
| "shots_loop R (b # bs) g =
     (if friendly b then
        (let (keep, g1) = shot_step R b g;
             (rest, g2) = shots_loop R bs g1
         in ((if keep then b # rest else rest), g2))
      else (let (rest, g2) = shots_loop R bs g in (b # rest, g2)))"

definition bullets_vs_targets :: "(nat \<Rightarrow> real) \<Rightarrow> Game \<Rightarrow> Game" where
  "bullets_vs_targets R g =
     (let (kept, g1) = shots_loop R (all_bullets g) g in g1\<lparr>all_bullets := kept\<rparr>)"

subsubsection \<open>Enemy bullets vs player\<close>

definition player_hit :: "Bullet \<Rightarrow> Game \<Rightarrow> Game" where
  "player_hit eb g =
     (let p = player g;
          took = \<not> shield_timer p > 0;
          p1 = (if shield_timer p > 0
                then p\<lparr>shield_timer := max 0 (shield_timer p - 35 / 100)\<rparr>
                else p\<lparr>hp := hp p - 1\<rparr>)
      in g\<lparr>effects := effects g @ [Explosion_init (b_pos eb) RED (25 / 100)],
            shake := bump (if took then 7 else 3) (shake g),
            player := p1\<lparr>invuln := 1 / 2\<rparr>\<rparr>)"

text \<open>The scan stops (\<open>break\<close>) at the first hostile bullet whose centre is inside the player.\<close>

fun hostile_loop :: "Bullet list \<Rightarrow> Game \<Rightarrow> Bullet list \<times> Game" where
  "hostile_loop [] g = ([], g)"
| "hostile_loop (eb # ebs) g =
     (if hits eb (rect (player g)) then (ebs, player_hit eb g)
      else (let (rest, g1) = hostile_loop ebs g in (eb # rest, g1)))"

definition enemy_bullets_vs_player :: "Game \<Rightarrow> Game" where
  "enemy_bullets_vs_player g =
     (if invuln (player g) \<le> 0 then
        (let (rest, g1) = hostile_loop (enemy_bullets g) g in g1\<lparr>enemy_bullets := rest\<rparr>)
      else g)"

subsubsection \<open>Enemies vs player (ramming)\<close>

definition ram :: "Enemy \<Rightarrow> Game \<Rightarrow> Game" where
  "ram e g =
     (let p = player g;
          p1 = (if shield_timer p > 0
                then p\<lparr>shield_timer := max 0 (shield_timer p - 1)\<rparr>
                else p\<lparr>hp := hp p - 1\<rparr>)
      in g\<lparr>effects := effects g @ [Explosion_init (e_pos e) ORANGE (35 / 100)],
            shake := bump 9 (shake g),
            player := p1\<lparr>invuln := 6 / 10\<rparr>\<rparr>)"

text \<open>
  The snapshot \<open>[ee for ee in self.enemies if self.player.rect.colliderect(ee.rect)]\<close> is
  taken before the loop; the player's rectangle does not change in the loop.
\<close>

fun ram_loop :: "Rect \<Rightarrow> Enemy list \<Rightarrow> Game \<Rightarrow> Enemy list \<times> Game" where
  "ram_loop pr [] g = ([], g)"
| "ram_loop pr (e # es) g =
     (if colliderect pr (e_rect e) then ram_loop pr es (ram e g)
      else (let (rest, g1) = ram_loop pr es g in (e # rest, g1)))"

definition ramming :: "Game \<Rightarrow> Game" where
  "ramming g =
     (let (rest, g1) = ram_loop (rect (player g)) (enemies g) g in g1\<lparr>enemies := rest\<rparr>)"

subsubsection \<open>Pickup powerups\<close>

definition pickup :: "PowerUp \<Rightarrow> Game \<Rightarrow> Game" where
  "pickup p g =
     (let pl = player g;
          g1 = (if kind p = ''shield'' then
                  g\<lparr>player := pl\<lparr>shield_timer := shield_timer pl + 6\<rparr>,
                    floaters := floaters g @ [FloatingText_init (pos pl) ''SHIELD'' CYAN]\<rparr>
                else if kind p = ''rapid'' then
                  g\<lparr>player := pl\<lparr>rapid_timer := rapid_timer pl + 6\<rparr>,
                    floaters := floaters g @ [FloatingText_init (pos pl) ''RAPID FIRE'' PURPLE]\<rparr>
                else
                  g\<lparr>player := pl\<lparr>hp := min PLAYER_MAX_HP (hp pl + 2)\<rparr>,
                    floaters := floaters g @ [FloatingText_init (pos pl) ''+2 HP'' GREEN]\<rparr>)
      in g1\<lparr>shake := bump 4 (shake g1)\<rparr>)"

fun pickup_loop :: "Rect \<Rightarrow> PowerUp list \<Rightarrow> Game \<Rightarrow> PowerUp list \<times> Game" where
  "pickup_loop pr [] g = ([], g)"
| "pickup_loop pr (p # ps) g =
     (if colliderect pr (p_rect p) then pickup_loop pr ps (pickup p g)
      else (let (rest, g1) = pickup_loop pr ps g in (p # rest, g1)))"

definition pickups :: "Game \<Rightarrow> Game" where
  "pickups g =
     (let (rest, g1) = pickup_loop (rect (player g)) (powerups g) g in g1\<lparr>powerups := rest\<rparr>)"

subsubsection \<open>Terminal condition\<close>

definition check_game_over :: "(nat \<Rightarrow> real) \<Rightarrow> Game \<Rightarrow> Game" where
  "check_game_over R g =
     (if hp (player g) \<le> 0 then
        g\<lparr>game_over := True,
          effects := effects g @ death_explosions R (rng g) (pos (player g)) 40 40 10,
          rng := rng g + 20\<rparr>
      else g)"

subsubsection \<open>The tick, the event handler, the main loop\<close>

text \<open>
  \<open>Game.update(dt)\<close>; \<open>pressed\<close> is \<open>pygame.key.get_pressed()\<close> and \<open>mouse0\<close> is
  \<open>pygame.mouse.get_pressed()[0]\<close>.
\<close>

definition update :: "(nat \<Rightarrow> real) \<Rightarrow> real \<Rightarrow> (key \<Rightarrow> bool) \<Rightarrow> bool \<Rightarrow> Game \<Rightarrow> Game" where
  "update R dt pressed mouse0 g =
     (if game_over g then g
      else
        (let g1 = g\<lparr>player := Player_update dt pressed (player g)\<rparr>;
             g2 = (if pressed K_SPACE \<or> mouse0 then fire g1 else g1);
             g3 = update_timers R dt g2;
             g4 = spawn_enemies R g3;
             g5 = boss_spawn g4;
             g6 = update_groups R dt g5;
             g7 = bullets_vs_targets R g6;
             g8 = enemy_bullets_vs_player g7;
             g9 = ramming g8;
             g10 = pickups g9
         in check_game_over R g10))"

datatype event = QUIT | KEYDOWN key | MOUSEBUTTONDOWN int | OTHER

definition handle_event :: "event \<Rightarrow> Game \<Rightarrow> Game" where
  "handle_event e g =
     (case e of
        QUIT \<Rightarrow> g\<lparr>running := False\<rparr>
      | KEYDOWN k \<Rightarrow>
          if k = K_ESCAPE then g\<lparr>running := False\<rparr>
          else if k = K_p then (if \<not> game_over g then g\<lparr>paused := \<not> paused g\<rparr> else g)
          else if k = K_SPACE \<and> \<not> game_over g then fire g
          else g
      | MOUSEBUTTONDOWN button \<Rightarrow>
          if \<not> game_over g then (if button = 1 then fire g else g) else g
      | OTHER \<Rightarrow> g)"

fun events :: "event list \<Rightarrow> Game \<Rightarrow> Game" where
  "events [] g = g"
| "events (e # es) g = events es (handle_event e g)"

text \<open>\<open>Game.draw\<close> changes nothing but the random source, through \<open>self.shake.offset()\<close>.\<close>

definition draw :: "Game \<Rightarrow> Game" where
  "draw g = g\<lparr>rng := rng g + offset_draws (shake g)\<rparr>"

text \<open>
  What one iteration of the loop of \<open>Game.run\<close> receives from outside: the milliseconds
  \<open>self.clock.tick(FPS)\<close> returns, the event queue, and the key and mouse snapshots.
\<close>

record frame_input =
  ms :: nat
  evs :: "event list"
  keys :: "key \<Rightarrow> bool"
  mouse :: bool

definition frame :: "(nat \<Rightarrow> real) \<Rightarrow> frame_input \<Rightarrow> Game \<Rightarrow> Game" where
  "frame R fi g =
     (let dt = real (ms fi) / 1000;
          g1 = events (evs fi) g;
          g2 = (if \<not> paused g1 then update R dt (keys fi) (mouse fi) g1 else g1)
      in draw g2)"

text \<open>\<open>Game.run\<close> over the frames the environment supplies: \<open>while self.running\<close>.\<close>

fun run :: "(nat \<Rightarrow> real) \<Rightarrow> frame_input list \<Rightarrow> Game \<Rightarrow> Game" where
  "run R [] g = g"
| "run R (fi # fis) g = (if running g then run R fis (frame R fi g) else g)"

text \<open>The states the program can be in at a tick boundary.\<close>

inductive reachable :: "(nat \<Rightarrow> real) \<Rightarrow> Game \<Rightarrow> bool" for R where
  reachable_reset: "reachable R (reset R n)"
| reachable_frame: "reachable R g \<Longrightarrow> running g \<Longrightarrow> reachable R (frame R fi g)"

subsection \<open>Auxiliary notions\<close>

text \<open>
  Names for stretches of \<open>Game.update\<close>: \<open>advance\<close> is the tick up to the boss spawn
  logic, \<open>collisions\<close> the four collision steps.
\<close>

definition advance :: "(nat \<Rightarrow> real) \<Rightarrow> real \<Rightarrow> (key \<Rightarrow> bool) \<Rightarrow> bool \<Rightarrow> Game \<Rightarrow> Game" where
  "advance R dt pressed mouse0 g =
     boss_spawn (spawn_enemies R (update_timers R dt
       (if pressed K_SPACE \<or> mouse0 then fire (g\<lparr>player := Player_update dt pressed (player g)\<rparr>)
        else g\<lparr>player := Player_update dt pressed (player g)\<rparr>)))"

definition collisions :: "(nat \<Rightarrow> real) \<Rightarrow> Game \<Rightarrow> Game" where
  "collisions R g = pickups (ramming (enemy_bullets_vs_player (bullets_vs_targets R g)))"

text \<open>
  What every collision step leaves alone: \<open>resolves g g'\<close> relates the state before a
  step to the state after it.
\<close>

definition resolves :: "Game \<Rightarrow> Game \<Rightarrow> bool" where
  "resolves g g' \<longleftrightarrow>
     spawn_t g' = spawn_t g \<and> time g' = time g \<and> running g' = running g \<and>
     paused g' = paused g \<and> game_over g' = game_over g \<and> stars g' = stars g \<and>
     star_speed g' = star_speed g \<and> (boss g' = None) = (boss g = None) \<and>
     set (all_bullets g') \<subseteq> set (all_bullets g) \<and>
     set (enemy_bullets g') \<subseteq> set (enemy_bullets g) \<and>
     rect (player g') = rect (player g) \<and> pos (player g') = pos (player g) \<and>
     (hp (player g) \<le> PLAYER_MAX_HP \<longrightarrow> hp (player g') \<le> PLAYER_MAX_HP)"

subsection \<open>Example inputs\<close>

text \<open>
  Concrete states for the examples: \<open>quiet\<close> is the random source whose every draw is 0;
  \<open>hostile_at p\<close> is an enemy bullet whose rectangle has been centred at \<open>p\<close> by an update;
  \<open>enemy_at p\<close> is a freshly built enemy at \<open>p\<close>.
\<close>

definition quiet :: "nat \<Rightarrow> real" where
  "quiet k = 0"

definition hostile_at :: "Vector2 \<Rightarrow> Bullet" where
  "hostile_at p =
     (Bullet_init p (0, 320) False 1 RED 5)
       \<lparr>b_rect := set_center (py_int (fst p), py_int (snd p)) (Rect_init 0 0 10 10)\<rparr>"

definition shielded_under_fire :: Game where
  "shielded_under_fire =
     (reset quiet 0)
       \<lparr>player := Player_init\<lparr>shield_timer := 2 / 10\<rparr>,
        enemy_bullets := [hostile_at (450, 1060), hostile_at (451, 1061)]\<rparr>"

definition enemy_at :: "Vector2 \<Rightarrow> Enemy" where
  "enemy_at p = (Enemy_init quiet 0 p)"

definition rammed_twice :: Game where
  "rammed_twice =
     (reset quiet 0)
       \<lparr>player := Player_init\<lparr>invuln := 1 / 2\<rparr>,
        enemies := [enemy_at (440, 1050), enemy_at (100, 100), enemy_at (460, 1070)]\<rparr>"

text \<open>
  \<open>friendly_at p\<close> is a player bullet whose rectangle has been centred at \<open>p\<close> by an
  update.
\<close>

definition friendly_at :: "Vector2 \<Rightarrow> Bullet" where
  "friendly_at p =
     (Bullet_init p (0, - PLAYER_SHOT_SPEED) True PLAYER_SHOT_DMG YELLOW 5)
       \<lparr>b_rect := set_center (py_int (fst p), py_int (snd p)) (Rect_init 0 0 10 10)\<rparr>"

definition boss_under_fire :: Game where
  "boss_under_fire =
     (reset quiet 0)
       \<lparr>boss := Some (Boss_init\<lparr>o_pos := (450, 200), o_rect := Rect_init 370 120 160 160\<rparr>),
        enemies := [enemy_at (450, 210)],
        all_bullets := [friendly_at (450, 220)]\<rparr>"

definition three_in_line :: Game where
  "three_in_line =
     (reset quiet 0)
       \<lparr>enemies := [enemy_at (450, 500), (enemy_at (452, 498))\<lparr>e_hp := 1\<rparr>, enemy_at (100, 100),
                    enemy_at (448, 502)],
        all_bullets := [friendly_at (450, 500)]\<rparr>"

definition misfiled :: Game where
  "misfiled =
     (reset quiet 0)\<lparr>all_bullets := [hostile_at (450, 500), friendly_at (450, 600)]\<rparr>"

text \<open>Every bullet is in the group of its allegiance.\<close>

definition filed :: "Game \<Rightarrow> bool" where
  "filed g \<longleftrightarrow> (\<forall>b \<in> set (all_bullets g). friendly b) \<and> (\<forall>b \<in> set (enemy_bullets g). \<not> friendly b)"

text \<open>
  A run from \<open>reset\<close>: \<open>duel\<close> is a random source that places every enemy at \<open>x = 450\<close>
  with speed 110 and 218.9 in turn, and \<open>duel_frames\<close> are six frames of one second each
  in which the up key is held. \<open>press_p\<close> and \<open>press_space\<close> are frames that deliver one
  key-down event. \<open>doomed\<close> is a state with one hit point left and two enemies on the
  player.
\<close>

definition duel :: "nat \<Rightarrow> real" where
  "duel k =
     (if k < 360 then 0
      else if k \<in> {360, 363, 369, 374, 380, 385} then 1 / 2
      else if k \<in> {361, 370, 381} then 0
      else 99 / 100)"

definition hold_up :: frame_input where
  "hold_up = \<lparr>ms = 1000, evs = [], keys = (\<lambda>k. k = K_UP), mouse = False\<rparr>"

definition duel_frames :: "frame_input list" where
  "duel_frames = [hold_up, hold_up, hold_up, hold_up, hold_up, hold_up]"

definition press_p :: frame_input where
  "press_p = \<lparr>ms = 16, evs = [KEYDOWN K_p], keys = (\<lambda>k. k = K_p), mouse = False\<rparr>"

definition press_space :: frame_input where
  "press_space = \<lparr>ms = 16, evs = [KEYDOWN K_SPACE], keys = (\<lambda>k. k = K_SPACE), mouse = False\<rparr>"

definition doomed :: Game where
  "doomed =
     (reset quiet 0)
       \<lparr>player := Player_init\<lparr>hp := 1\<rparr>,
        enemies := [enemy_at (440, 1050), enemy_at (460, 1070)]\<rparr>"

text \<open>\<open>healed_in_time\<close> is \<open>doomed\<close> with a heal power-up on the player.\<close>

definition healed_in_time :: Game where
  "healed_in_time = doomed\<lparr>powerups := [PowerUp_init (\<lambda>k. 2 / 3) 0 (450, 1060)]\<rparr>"

text \<open>The hit points at a tick boundary.\<close>

definition hp_inv :: "Game \<Rightarrow> bool" where
  "hp_inv g \<longleftrightarrow> hp (player g) \<le> PLAYER_MAX_HP \<and> (game_over g \<longleftrightarrow> hp (player g) \<le> 0)"

text \<open>
  Grazing shots: the bullet's rectangle overlaps the target's rectangle, and the bullet's
  centre is outside it.
\<close>

definition graze_boss :: Game where
  "graze_boss =
     (reset quiet 0)
       \<lparr>boss := Some (Boss_init\<lparr>o_pos := (450, 200), o_rect := Rect_init 370 120 160 160\<rparr>),
        all_bullets := [friendly_at (450, 117)]\<rparr>"

definition graze_enemy :: Game where
  "graze_enemy =
     (reset quiet 0)\<lparr>enemies := [enemy_at (450, 500)], all_bullets := [friendly_at (450, 479)]\<rparr>"

section \<open>Properties of the phases\<close>

lemmas config_defs =
  WIDTH_def HEIGHT_def PLAYER_SPEED_def PLAYER_SPEED_SLOW_def PLAYER_RADIUS_def
  PLAYER_FIRE_COOLDOWN_def PLAYER_MAX_HP_def PLAYER_SHOT_SPEED_def PLAYER_SHOT_DMG_def
  ENEMY_MIN_SPEED_def ENEMY_MAX_SPEED_def ENEMY_SPAWN_EVERY_def ENEMY_RADIUS_def
  ENEMY_HP_def BOSS_HP_def BOSS_SPEED_def BOSS_RADIUS_def BOSS_COOLDOWN_def
  POWERUP_RADIUS_def POWERUP_DROP_CHANCE_def POWERUP_LIFETIME_def STAR_COUNT_def
  SHAKE_DECAY_def

lemmas color_defs =
  WHITE_def YELLOW_def ORANGE_def RED_def CYAN_def GREEN_def PURPLE_def

lemma resolves_refl: "resolves g g"
  by (simp add: resolves_def)

lemma resolves_trans: "resolves g g' \<Longrightarrow> resolves g' g'' \<Longrightarrow> resolves g g''"
proof -
  assume a: "resolves g g'" and b: "resolves g' g''"
  have 1: "set (all_bullets g'') \<subseteq> set (all_bullets g)"
    using a b unfolding resolves_def by (meson subset_trans)
  have 2: "set (enemy_bullets g'') \<subseteq> set (enemy_bullets g)"
    using a b unfolding resolves_def by (meson subset_trans)
  have 3: "hp (player g) \<le> PLAYER_MAX_HP \<longrightarrow> hp (player g'') \<le> PLAYER_MAX_HP"
    using a b unfolding resolves_def by simp
  have 4: "spawn_t g'' = spawn_t g \<and> time g'' = time g \<and> running g'' = running g \<and>
     paused g'' = paused g \<and> game_over g'' = game_over g \<and> stars g'' = stars g \<and>
     star_speed g'' = star_speed g \<and> (boss g'' = None) = (boss g = None) \<and>
     rect (player g'') = rect (player g) \<and> pos (player g'') = pos (player g)"
    using a b unfolding resolves_def by simp
  show ?thesis using 1 2 3 4 unfolding resolves_def by simp
qed

lemma resolves_enemies_upd: "resolves g g' \<Longrightarrow> resolves g (g'\<lparr>enemies := es\<rparr>)"
  by (simp add: resolves_def)

lemma resolves_powerups_upd: "resolves g g' \<Longrightarrow> resolves g (g'\<lparr>powerups := ps\<rparr>)"
  by (simp add: resolves_def)

lemma resolves_all_bullets_upd:
  "resolves g g' \<Longrightarrow> set bs \<subseteq> set (all_bullets g) \<Longrightarrow> resolves g (g'\<lparr>all_bullets := bs\<rparr>)"
  by (simp add: resolves_def)

lemma resolves_enemy_bullets_upd:
  "resolves g g' \<Longrightarrow> set bs \<subseteq> set (enemy_bullets g) \<Longrightarrow> resolves g (g'\<lparr>enemy_bullets := bs\<rparr>)"
  by (simp add: resolves_def)

lemma resolves_enemy_hit: "resolves g (snd (enemy_hit R b e g))"
  by (simp add: resolves_def enemy_hit_def Let_def)

lemma resolves_hit_list_loop: "resolves g (snd (hit_list_loop R b es g))"
proof (induction es arbitrary: g)
  case Nil
  show ?case by (simp add: resolves_refl)
next
  case (Cons e es)
  show ?case
  proof (cases "hits b (e_rect e)")
    case True
    have "resolves g (snd (enemy_hit R b e g))" by (rule resolves_enemy_hit)
    moreover have "resolves (snd (enemy_hit R b e g)) (snd (hit_list_loop R b es (snd (enemy_hit R b e g))))"
      by (rule Cons.IH)
    ultimately have "resolves g (snd (hit_list_loop R b es (snd (enemy_hit R b e g))))"
      by (rule resolves_trans)
    then show ?thesis using True by (simp add: split_beta)
  next
    case False
    then show ?thesis using Cons.IH [of g] by (simp add: split_beta)
  qed
qed

lemma resolves_boss_hit: "boss g = Some bs \<Longrightarrow> resolves g (boss_hit b bs g)"
  by (simp add: resolves_def boss_hit_def)

lemma resolves_shot_step: "resolves g (snd (shot_step R b g))"
  using resolves_hit_list_loop [of g R b "enemies g"]
  by (simp add: shot_step_def split_beta resolves_boss_hit resolves_enemies_upd resolves_refl
       split: option.splits)

lemma resolves_shots_loop: "resolves g (snd (shots_loop R bs g))"
proof (induction bs arbitrary: g)
  case Nil
  show ?case by (simp add: resolves_refl)
next
  case (Cons b bs)
  show ?case
  proof (cases "friendly b")
    case True
    have "resolves g (snd (shot_step R b g))" by (rule resolves_shot_step)
    moreover have "resolves (snd (shot_step R b g)) (snd (shots_loop R bs (snd (shot_step R b g))))"
      by (rule Cons.IH)
    ultimately have "resolves g (snd (shots_loop R bs (snd (shot_step R b g))))"
      by (rule resolves_trans)
    then show ?thesis using True by (simp add: split_beta)
  next
    case False
    then show ?thesis using Cons.IH [of g] by (simp add: split_beta)
  qed
qed

lemma shots_loop_subset: "set (fst (shots_loop R bs g)) \<subseteq> set bs"
  by (induction bs arbitrary: g) (auto simp: split_beta Let_def split: if_splits)

lemma resolves_bullets_vs_targets: "resolves g (bullets_vs_targets R g)"
  by (simp add: bullets_vs_targets_def split_beta resolves_all_bullets_upd resolves_shots_loop
        shots_loop_subset)

lemma resolves_player_hit: "resolves g (player_hit eb g)"
  by (simp add: resolves_def player_hit_def Let_def)

lemma resolves_hostile_loop: "resolves g (snd (hostile_loop ebs g))"
  by (induction ebs) (simp_all add: resolves_refl resolves_player_hit split_beta)

lemma hostile_loop_subset: "set (fst (hostile_loop ebs g)) \<subseteq> set ebs"
  by (induction ebs) (auto simp: split_beta)

lemma resolves_enemy_bullets_vs_player: "resolves g (enemy_bullets_vs_player g)"
  by (simp add: enemy_bullets_vs_player_def split_beta resolves_enemy_bullets_upd
        resolves_hostile_loop hostile_loop_subset resolves_refl)

lemma resolves_ram: "resolves g (ram e g)"
  by (simp add: resolves_def ram_def Let_def)

lemma resolves_ram_loop: "resolves g (snd (ram_loop pr es g))"
proof (induction es arbitrary: g)
  case Nil
  show ?case by (simp add: resolves_refl)
next
  case (Cons e es)
  show ?case
  proof (cases "colliderect pr (e_rect e)")
    case True
    have "resolves g (snd (ram_loop pr es (ram e g)))"
      using resolves_ram Cons.IH by (rule resolves_trans)
    then show ?thesis using True by simp
  next
    case False
    then show ?thesis using Cons.IH [of g] by (simp add: split_beta)
  qed
qed

lemma resolves_ramming: "resolves g (ramming g)"
  by (simp add: ramming_def split_beta resolves_enemies_upd resolves_ram_loop)

lemma resolves_pickup: "resolves g (pickup p g)"
  by (simp add: resolves_def pickup_def Let_def)

lemma resolves_pickup_loop: "resolves g (snd (pickup_loop pr ps g))"
proof (induction ps arbitrary: g)
  case Nil
  show ?case by (simp add: resolves_refl)
next
  case (Cons p ps)
  show ?case
  proof (cases "colliderect pr (p_rect p)")
    case True
    have "resolves g (snd (pickup_loop pr ps (pickup p g)))"
      using resolves_pickup Cons.IH by (rule resolves_trans)
    then show ?thesis using True by simp
  next
    case False
    then show ?thesis using Cons.IH [of g] by (simp add: split_beta)
  qed
qed

lemma resolves_pickups: "resolves g (pickups g)"
  by (simp add: pickups_def split_beta resolves_powerups_upd resolves_pickup_loop)

lemma resolves_collisions: "resolves g (collisions R g)"
proof -
  have "resolves g (enemy_bullets_vs_player (bullets_vs_targets R g))"
    using resolves_bullets_vs_targets resolves_enemy_bullets_vs_player by (rule resolves_trans)
  then have "resolves g (ramming (enemy_bullets_vs_player (bullets_vs_targets R g)))"
    using resolves_ramming by (rule resolves_trans)
  then show ?thesis
    unfolding collisions_def using resolves_pickups by (rule resolves_trans)
qed

lemma Bullet_update_friendly: "friendly (snd (Bullet_update dt b)) = friendly b"
  by (simp add: Bullet_update_def Let_def)

lemma all_bullets_loop_friendly:
  "\<forall>b \<in> set kept. friendly b \<Longrightarrow>
     \<forall>b \<in> set (fst (all_bullets_loop dt bs (kept, eb))). friendly b"
proof (induction bs arbitrary: kept eb)
  case Nil
  then show ?case by simp
next
  case (Cons b bs)
  show ?case
  proof (cases "friendly b")
    case True
    then have "\<forall>c \<in> set (if fst (Bullet_update dt b) then kept @ [snd (Bullet_update dt b)] else kept).
                 friendly c"
      using Cons.prems by (simp add: Bullet_update_friendly)
    then have "\<forall>c \<in> set (fst (all_bullets_loop dt bs
                 (if fst (Bullet_update dt b) then kept @ [snd (Bullet_update dt b)] else kept, eb))).
                 friendly c"
      by (rule Cons.IH)
    then show ?thesis using True by (simp add: split_beta Bullet_update_friendly)
  next
    case False
    then show ?thesis using Cons.IH [OF Cons.prems] by (simp add: split_beta Bullet_update_friendly)
  qed
qed

lemma all_bullets_loop_hostile:
  "\<forall>b \<in> set eb. \<not> friendly b \<Longrightarrow>
     \<forall>b \<in> set (snd (all_bullets_loop dt bs (kept, eb))). \<not> friendly b"
proof (induction bs arbitrary: kept eb)
  case Nil
  then show ?case by simp
next
  case (Cons b bs)
  show ?case
  proof (cases "friendly b")
    case True
    then show ?thesis using Cons.IH [OF Cons.prems] by (simp add: split_beta Bullet_update_friendly)
  next
    case False
    then have "\<forall>c \<in> set (eb @ [snd (Bullet_update dt b)]). \<not> friendly c"
      using Cons.prems by (simp add: Bullet_update_friendly)
    then have "\<forall>c \<in> set (snd (all_bullets_loop dt bs (kept, eb @ [snd (Bullet_update dt b)]))).
                 \<not> friendly c"
      by (rule Cons.IH)
    then show ?thesis using False by (simp add: split_beta Bullet_update_friendly)
  qed
qed

lemma update_all_Bullet_hostile:
  "\<forall>b \<in> set eb. \<not> friendly b \<Longrightarrow> \<forall>b \<in> set (update_all (Bullet_update dt) eb). \<not> friendly b"
proof
  fix c
  assume h: "\<forall>b \<in> set eb. \<not> friendly b" and "c \<in> set (update_all (Bullet_update dt) eb)"
  then obtain x where "x \<in> set eb" and "c = snd (Bullet_update dt x)"
    by (auto simp: update_all_def)
  then show "\<not> friendly c" using h by (simp add: Bullet_update_friendly)
qed

lemma Enemy_update_hostile:
  "\<forall>b \<in> set eb. \<not> friendly b \<Longrightarrow>
     \<forall>b \<in> set (fst (snd (snd (Enemy_update R dt e eb n)))). \<not> friendly b"
  by (simp add: Enemy_update_def Let_def Bullet_init_def)

lemma enemies_loop_hostile:
  "\<forall>b \<in> set eb. \<not> friendly b \<Longrightarrow>
     \<forall>b \<in> set (fst (snd (enemies_loop R dt es (kept, eb, n)))). \<not> friendly b"
proof (induction es arbitrary: kept eb n)
  case Nil
  then show ?case by simp
next
  case (Cons e es)
  have "\<forall>b \<in> set (fst (snd (snd (Enemy_update R dt e eb n)))). \<not> friendly b"
    using Cons.prems by (rule Enemy_update_hostile)
  then have "\<forall>b \<in> set (fst (snd (enemies_loop R dt es
               (if fst (Enemy_update R dt e eb n) then kept @ [fst (snd (Enemy_update R dt e eb n))]
                else kept,
                fst (snd (snd (Enemy_update R dt e eb n))),
                snd (snd (snd (Enemy_update R dt e eb n))))))). \<not> friendly b"
    by (rule Cons.IH)
  then show ?case by (simp add: split_beta)
qed

lemma radial_burst_hostile: "\<forall>b \<in> set (radial_burst R n p). \<not> friendly b"
  by (simp add: radial_burst_def burst_bullet_def Bullet_init_def Let_def)

lemma Boss_update_hostile:
  "\<forall>b \<in> set eb. \<not> friendly b \<Longrightarrow>
     \<forall>b \<in> set (fst (snd (snd (Boss_update R dt bs eb fx n)))). \<not> friendly b"
  using radial_burst_hostile
  by (auto simp: Boss_update_def Let_def split_beta)

lemma Boss_update_alive:
  "fst (Boss_update R dt bs eb fx n) = (0 < o_hp bs)"
  by (simp add: Boss_update_def Let_def split_beta)

lemma update_groups_all_bullets:
  "\<forall>b \<in> set (all_bullets (update_groups R dt g)). friendly b"
  using all_bullets_loop_friendly [of "[]" dt "all_bullets g" "enemy_bullets g"]
  by (simp add: update_groups_def Let_def split_beta split: option.splits)

lemma update_groups_enemy_bullets:
  assumes "\<forall>b \<in> set (enemy_bullets g). \<not> friendly b"
  shows "\<forall>b \<in> set (enemy_bullets (update_groups R dt g)). \<not> friendly b"
proof -
  let ?eb0 = "snd (all_bullets_loop dt (all_bullets g) ([], enemy_bullets g))"
  let ?eb1 = "update_all (Bullet_update dt) ?eb0"
  let ?el = "enemies_loop R dt (enemies g) ([], ?eb1, rng g)"
  have 0: "\<forall>b \<in> set ?eb0. \<not> friendly b" using assms by (rule all_bullets_loop_hostile)
  then have 1: "\<forall>b \<in> set ?eb1. \<not> friendly b" by (rule update_all_Bullet_hostile)
  then have 2: "\<forall>b \<in> set (fst (snd ?el)). \<not> friendly b" by (rule enemies_loop_hostile)
  show ?thesis
  proof (cases "boss g")
    case None
    then show ?thesis using 2 by (simp add: update_groups_def Let_def split_beta)
  next
    case (Some bs)
    then show ?thesis using Boss_update_hostile [OF 2]
      by (simp add: update_groups_def Let_def split_beta)
  qed
qed

lemma update_groups_fields:
  "player (update_groups R dt g) = player g"
  "spawn_t (update_groups R dt g) = spawn_t g"
  "time (update_groups R dt g) = time g"
  "running (update_groups R dt g) = running g"
  "paused (update_groups R dt g) = paused g"
  "game_over (update_groups R dt g) = game_over g"
  "shake (update_groups R dt g) = shake g"
  "stars (update_groups R dt g) = stars g"
  "star_speed (update_groups R dt g) = star_speed g"
  by (simp_all add: update_groups_def Let_def split_beta split: option.splits)

lemma update_groups_boss:
  "boss (update_groups R dt g) = None \<longleftrightarrow> (case boss g of None \<Rightarrow> True | Some bs \<Rightarrow> o_hp bs \<le> 0)"
  by (simp add: update_groups_def Let_def split_beta Boss_update_alive split: option.splits)

lemma update_timers_fields:
  "player (update_timers R dt g) = player g"
  "boss (update_timers R dt g) = boss g"
  "time (update_timers R dt g) = time g + dt"
  "spawn_t (update_timers R dt g) = Timer_update dt (spawn_t g)"
  "game_over (update_timers R dt g) = game_over g"
  "paused (update_timers R dt g) = paused g"
  "running (update_timers R dt g) = running g"
  "all_bullets (update_timers R dt g) = all_bullets g"
  "enemy_bullets (update_timers R dt g) = enemy_bullets g"
  by (simp_all add: update_timers_def split_beta)

lemma spawn_enemies_fields:
  "player (spawn_enemies R g) = player g"
  "boss (spawn_enemies R g) = boss g"
  "time (spawn_enemies R g) = time g"
  "game_over (spawn_enemies R g) = game_over g"
  "paused (spawn_enemies R g) = paused g"
  "running (spawn_enemies R g) = running g"
  "all_bullets (spawn_enemies R g) = all_bullets g"
  "enemy_bullets (spawn_enemies R g) = enemy_bullets g"
  by (simp_all add: spawn_enemies_def)

lemma boss_spawn_fields:
  "player (boss_spawn g) = player g"
  "spawn_t (boss_spawn g) = spawn_t g"
  "time (boss_spawn g) = time g"
  "game_over (boss_spawn g) = game_over g"
  "paused (boss_spawn g) = paused g"
  "running (boss_spawn g) = running g"
  "all_bullets (boss_spawn g) = all_bullets g"
  "enemy_bullets (boss_spawn g) = enemy_bullets g"
  by (simp_all add: boss_spawn_def)

lemma fire_fields:
  "boss (fire g) = boss g"
  "time (fire g) = time g"
  "spawn_t (fire g) = spawn_t g"
  "game_over (fire g) = game_over g"
  "paused (fire g) = paused g"
  "running (fire g) = running g"
  "enemy_bullets (fire g) = enemy_bullets g"
  "hp (player (fire g)) = hp (player g)"
  "score (player (fire g)) = score (player g)"
  by (simp_all add: fire_def try_fire_def split_beta Let_def)

lemma fire_all_bullets:
  "\<forall>b \<in> set (all_bullets g). friendly b \<Longrightarrow> \<forall>b \<in> set (all_bullets (fire g)). friendly b"
  by (auto simp: fire_def try_fire_def split_beta Let_def shot_def Bullet_init_def)

lemma Player_update_fields:
  "hp (Player_update dt pr p) = hp p"
  "score (Player_update dt pr p) = score p"
  by (simp_all add: Player_update_def Let_def split del: if_split)

lemma update_alt:
  "\<not> game_over g \<Longrightarrow>
     update R dt pr m g = check_game_over R (collisions R (update_groups R dt (advance R dt pr m g)))"
  by (simp add: update_def collisions_def advance_def Let_def)

lemma advance_fields:
  "game_over (advance R dt pr m g) = game_over g"
  "paused (advance R dt pr m g) = paused g"
  "running (advance R dt pr m g) = running g"
  "time (advance R dt pr m g) = time g + dt"
  "hp (player (advance R dt pr m g)) = hp (player g)"
  "score (player (advance R dt pr m g)) = score (player g)"
  "enemy_bullets (advance R dt pr m g) = enemy_bullets g"
  by (simp_all add: advance_def boss_spawn_fields spawn_enemies_fields update_timers_fields
        fire_fields Player_update_fields)

lemma advance_spawn_t:
  "spawn_t (advance R dt pr m g) =
     (if Timer_ready (Timer_update dt (spawn_t g))
      then max (25 / 100) (ENEMY_SPAWN_EVERY - min (3 / 10) ((time g + dt) / 120))
      else Timer_update dt (spawn_t g))"
  by (simp add: advance_def boss_spawn_fields spawn_enemies_def update_timers_fields fire_fields
        Timer_set_def)

lemma check_game_over_fields:
  "player (check_game_over R g) = player g"
  "spawn_t (check_game_over R g) = spawn_t g"
  "time (check_game_over R g) = time g"
  "boss (check_game_over R g) = boss g"
  "paused (check_game_over R g) = paused g"
  "running (check_game_over R g) = running g"
  "all_bullets (check_game_over R g) = all_bullets g"
  "enemy_bullets (check_game_over R g) = enemy_bullets g"
  "game_over (check_game_over R g) = (game_over g \<or> hp (player g) \<le> 0)"
  by (simp_all add: check_game_over_def)

lemma update_spawn_t:
  "\<not> game_over g \<Longrightarrow> spawn_t (update R dt pr m g) = spawn_t (advance R dt pr m g)"
  using resolves_collisions [of "update_groups R dt (advance R dt pr m g)" R]
  by (simp add: update_alt check_game_over_fields resolves_def update_groups_fields)

section \<open>The claims\<close>

text \<open>
  C1. When the spawn cooldown fires in a tick, it is reset to
  \<open>max(0.25, 0.55 - min(0.3, t / 120))\<close> where \<open>t\<close> is the elapsed time after this tick's
  increment. The interval never grows with \<open>t\<close>, and it is 0.25 from the moment
  \<open>t / 120\<close> reaches 0.3.
\<close>

theorem spawn_interval_ramp:
  assumes "\<not> game_over g" and "Timer_ready (Timer_update dt (spawn_t g))"
  shows "spawn_t (update R dt pr m g)
           = max (25 / 100) (ENEMY_SPAWN_EVERY - min (3 / 10) ((time g + dt) / 120))
         \<and> (\<forall>g' dt'. \<not> game_over g' \<and> Timer_ready (Timer_update dt' (spawn_t g'))
               \<and> time g + dt \<le> time g' + dt'
               \<longrightarrow> spawn_t (update R dt' pr m g') \<le> spawn_t (update R dt pr m g))
         \<and> (3 / 10 \<le> (time g + dt) / 120 \<longrightarrow> spawn_t (update R dt pr m g) = 25 / 100)"
proof -
  have eq: "spawn_t (update R' d pr m h)
              = max (25 / 100) (ENEMY_SPAWN_EVERY - min (3 / 10) ((time h + d) / 120))"
    if "\<not> game_over h" and "Timer_ready (Timer_update d (spawn_t h))" for R' d h
    using that by (simp add: update_spawn_t advance_spawn_t)
  have mono: "max (25 / 100) (ENEMY_SPAWN_EVERY - min (3 / 10) (t' / 120))
                \<le> max (25 / 100) (ENEMY_SPAWN_EVERY - min (3 / 10) (t / 120))"
    if "t \<le> t'" for t t' :: real
    using that by (simp add: max_def min_def)
  have floor: "max (25 / 100) (ENEMY_SPAWN_EVERY - min (3 / 10) (t / 120)) = 25 / 100"
    if "3 / 10 \<le> t / 120" for t :: real
    using that by (simp add: ENEMY_SPAWN_EVERY_def min_def)
  have 1: "spawn_t (update R dt pr m g)
             = max (25 / 100) (ENEMY_SPAWN_EVERY - min (3 / 10) ((time g + dt) / 120))"
    using assms by (rule eq)
  have 2: "spawn_t (update R dt' pr m g') \<le> spawn_t (update R dt pr m g)"
    if "\<not> game_over g' \<and> Timer_ready (Timer_update dt' (spawn_t g'))
        \<and> time g + dt \<le> time g' + dt'" for g' dt'
  proof -
    have "spawn_t (update R dt' pr m g')
            = max (25 / 100) (ENEMY_SPAWN_EVERY - min (3 / 10) ((time g' + dt') / 120))"
      using that by (intro eq) simp_all
    moreover have "time g + dt \<le> time g' + dt'" using that by simp
    ultimately show ?thesis using mono [of "time g + dt" "time g' + dt'"] 1 by simp
  qed
  have 3: "spawn_t (update R dt pr m g) = 25 / 100" if "3 / 10 \<le> (time g + dt) / 120"
    using floor [OF that] 1 by simp
  show ?thesis
    using 1 2 3 by blast
qed

theorem spawn_interval_ramp_witness:
  "\<not> game_over (reset (\<lambda>_. 0) 0)
   \<and> Timer_ready (Timer_update 1 (spawn_t (reset (\<lambda>_. 0) 0)))
   \<and> spawn_t (update (\<lambda>_. 0) 1 (\<lambda>_. False) False (reset (\<lambda>_. 0) 0)) = 13 / 24"
  using spawn_interval_ramp [of "reset (\<lambda>_. 0) 0" 1 "\<lambda>_. 0" "\<lambda>_. False" False]
  by (simp add: reset_def Timer_ready_def Timer_update_def Timer_set_def ENEMY_SPAWN_EVERY_def)

lemma handle_event_game_over:
  "game_over g \<Longrightarrow> handle_event e g = g\<lparr>running := running (handle_event e g)\<rparr>"
  by (simp add: handle_event_def split: event.splits)

lemma events_game_over:
  "game_over g \<Longrightarrow> \<exists>r. events es g = g\<lparr>running := r\<rparr>"
proof (induction es arbitrary: g)
  case Nil
  have "g = g\<lparr>running := running g\<rparr>" by simp
  then show ?case by (metis events.simps(1))
next
  case (Cons e es)
  obtain r1 where h: "handle_event e g = g\<lparr>running := r1\<rparr>"
    using handle_event_game_over [OF Cons.prems] by blast
  have "game_over (g\<lparr>running := r1\<rparr>)" using Cons.prems by simp
  then obtain r where "events es (g\<lparr>running := r1\<rparr>) = g\<lparr>running := r1\<rparr>\<lparr>running := r\<rparr>"
    using Cons.IH by blast
  then have "events (e # es) g = g\<lparr>running := r\<rparr>" by (simp add: h)
  then show ?case by blast
qed

lemma update_game_over_flag:
  assumes "\<not> game_over g"
  shows "game_over (update R dt pr m g) \<longleftrightarrow> hp (player (update R dt pr m g)) \<le> 0"
  using assms resolves_collisions [of "update_groups R dt (advance R dt pr m g)" R]
  by (simp add: update_alt check_game_over_fields resolves_def update_groups_fields advance_fields)

lemma update_terminal_check:
  assumes "\<not> game_over g"
  shows "hp (player (update R dt pr m g))
           = hp (player (collisions R (update_groups R dt (advance R dt pr m g))))"
    and "hp (player (update R dt pr m g)) \<le> 0 \<Longrightarrow>
           effects (update R dt pr m g)
             = effects (collisions R (update_groups R dt (advance R dt pr m g)))
               @ map (\<lambda>i. Explosion_init
                            (vadd (pos (player (update R dt pr m g)))
                               (uniform (- 40) 40
                                  (R (rng (collisions R (update_groups R dt (advance R dt pr m g)))
                                      + 2 * i)),
                                uniform (- 40) 40
                                  (R (rng (collisions R (update_groups R dt (advance R dt pr m g)))
                                      + 2 * i + 1))))
                            ORANGE (35 / 100)) [0..<10]"
    and "0 < hp (player (update R dt pr m g)) \<Longrightarrow>
           effects (update R dt pr m g)
             = effects (collisions R (update_groups R dt (advance R dt pr m g)))"
proof -
  let ?h = "collisions R (update_groups R dt (advance R dt pr m g))"
  have u: "update R dt pr m g = check_game_over R ?h" using assms by (rule update_alt)
  show 1: "hp (player (update R dt pr m g)) = hp (player ?h)"
    by (simp add: u check_game_over_fields)
  show "effects (update R dt pr m g)
          = effects ?h
            @ map (\<lambda>i. Explosion_init
                         (vadd (pos (player (update R dt pr m g)))
                            (uniform (- 40) 40 (R (rng ?h + 2 * i)),
                             uniform (- 40) 40 (R (rng ?h + 2 * i + 1))))
                         ORANGE (35 / 100)) [0..<10]"
    if "hp (player (update R dt pr m g)) \<le> 0"
  proof -
    have "hp (player ?h) \<le> 0" using that 1 by simp
    then show ?thesis by (simp add: u check_game_over_def death_explosions_def)
  qed
  show "effects (update R dt pr m g) = effects ?h" if "0 < hp (player (update R dt pr m g))"
  proof -
    have "\<not> hp (player ?h) \<le> 0" using that 1 by simp
    then show ?thesis by (simp add: u check_game_over_def)
  qed
qed

text \<open>
  C8, amended. In a tick that starts outside the terminal state, the hit points are
  tested once, after the pickup step: the game is in the terminal state at the end of the
  tick exactly when the hit points are then at most 0. In that case the effects of the
  tick are followed by ten explosions, each at the player's position displaced by a
  draw of \<open>uniform(-40, 40)\<close> on each axis, orange and of duration 0.35; otherwise
  nothing is appended. In the terminal state \<open>update\<close> changes nothing, and a whole frame
  changes no more than the \<open>running\<close> flag and the random source that rendering reads.
\<close>

theorem terminal_state:
  "(\<not> game_over g \<longrightarrow>
      (game_over (update R dt pr m g) \<longleftrightarrow> hp (player (update R dt pr m g)) \<le> 0)
      \<and> hp (player (update R dt pr m g))
          = hp (player (collisions R (update_groups R dt (advance R dt pr m g))))
      \<and> (hp (player (update R dt pr m g)) \<le> 0 \<longrightarrow>
           effects (update R dt pr m g)
             = effects (collisions R (update_groups R dt (advance R dt pr m g)))
               @ map (\<lambda>i. Explosion_init
                            (vadd (pos (player (update R dt pr m g)))
                               (uniform (- 40) 40
                                  (R (rng (collisions R (update_groups R dt (advance R dt pr m g)))
                                      + 2 * i)),
                                uniform (- 40) 40
                                  (R (rng (collisions R (update_groups R dt (advance R dt pr m g)))
                                      + 2 * i + 1))))
                            ORANGE (35 / 100)) [0..<10]
           \<and> length (effects (update R dt pr m g))
               = length (effects (collisions R (update_groups R dt (advance R dt pr m g)))) + 10)
      \<and> (0 < hp (player (update R dt pr m g)) \<longrightarrow>
           effects (update R dt pr m g)
             = effects (collisions R (update_groups R dt (advance R dt pr m g)))))
   \<and> (game_over g \<longrightarrow>
        update R dt pr m g = g
        \<and> frame R fi g = g\<lparr>running := running (frame R fi g), rng := rng (frame R fi g)\<rparr>)"
proof -
  have a: "frame R fi g = g\<lparr>running := running (frame R fi g), rng := rng (frame R fi g)\<rparr>"
    if go: "game_over g"
  proof -
    obtain r where r: "events (evs fi) g = g\<lparr>running := r\<rparr>"
      using events_game_over [OF go] by blast
    show ?thesis using go by (simp add: frame_def r update_def draw_def Let_def)
  qed
  have b: "update R dt pr m g = g" if "game_over g" using that by (simp add: update_def)
  have c: "length (effects (update R dt pr m g))
             = length (effects (collisions R (update_groups R dt (advance R dt pr m g)))) + 10"
    if "\<not> game_over g" and "hp (player (update R dt pr m g)) \<le> 0"
    using update_terminal_check(2) [OF that] by simp
  show ?thesis
    using a b c update_game_over_flag [of g R dt pr m] update_terminal_check [of g R dt pr m]
    by blast
qed

lemma advance_boss:
  "boss (advance R dt pr m g) =
     (if 50 < time g + dt \<and> boss g = None \<and> (400 < score (player g) \<or> 65 < time g + dt)
      then Some Boss_init else boss g)"
  by (simp add: advance_def boss_spawn_def spawn_enemies_fields update_timers_fields
        fire_fields Player_update_fields)

lemma update_boss_None:
  assumes "\<not> game_over g"
  shows "boss (update R dt pr m g) = None \<longleftrightarrow>
           (case boss (advance R dt pr m g) of None \<Rightarrow> True | Some bs \<Rightarrow> o_hp bs \<le> 0)"
  using assms resolves_collisions [of "update_groups R dt (advance R dt pr m g)" R]
  by (simp add: update_alt check_game_over_fields resolves_def update_groups_boss)

text \<open>
  C2. In a tick that starts with no boss, a boss exists at the end of the tick exactly
  when the elapsed time after this tick's increment exceeds 50 and the score exceeds 400
  or that time exceeds 65; the test is made in every such tick. The boss group is a
  \<open>GroupSingle\<close> and holds at most one boss; while it holds one, the spawn logic
  (\<open>boss_spawn\<close>, and the tick up to it, \<open>advance\<close>) leaves that boss in place and
  creates no other.
\<close>

theorem boss_gate:
  assumes "\<not> game_over g"
  shows "(boss g = None \<longrightarrow>
            (boss (update R dt pr m g) \<noteq> None \<longleftrightarrow>
               50 < time g + dt \<and> (400 < score (player g) \<or> 65 < time g + dt)))
         \<and> (\<forall>b. boss g = Some b \<longrightarrow>
               boss (boss_spawn g) = Some b \<and> boss (advance R dt pr m g) = Some b)"
proof -
  have "boss (update R dt pr m g) \<noteq> None \<longleftrightarrow>
          50 < time g + dt \<and> (400 < score (player g) \<or> 65 < time g + dt)"
    if "boss g = None"
    using that by (simp add: update_boss_None [OF assms] advance_boss Boss_init_def BOSS_HP_def)
  moreover have "boss (boss_spawn g) = Some b \<and> boss (advance R dt pr m g) = Some b"
    if "boss g = Some b" for b
    using that by (simp add: advance_boss boss_spawn_def)
  ultimately show ?thesis by blast
qed

theorem boss_gate_witness:
  "\<not> game_over ((reset (\<lambda>_. 0) 0)\<lparr>time := 65\<rparr>)
   \<and> boss ((reset (\<lambda>_. 0) 0)\<lparr>time := 65\<rparr>) = None
   \<and> boss (update (\<lambda>_. 0) 1 (\<lambda>_. False) False ((reset (\<lambda>_. 0) 0)\<lparr>time := 65\<rparr>)) \<noteq> None
   \<and> boss (update (\<lambda>_. 0) 1 (\<lambda>_. False) False ((reset (\<lambda>_. 0) 0)\<lparr>time := 49\<rparr>)) = None
   \<and> boss ((reset (\<lambda>_. 0) 0)\<lparr>time := 65, boss := Some Boss_init\<rparr>) = Some Boss_init
   \<and> boss (boss_spawn ((reset (\<lambda>_. 0) 0)\<lparr>time := 65, boss := Some Boss_init\<rparr>)) = Some Boss_init
   \<and> boss (advance (\<lambda>_. 0) 1 (\<lambda>_. False) False
             ((reset (\<lambda>_. 0) 0)\<lparr>time := 65, boss := Some Boss_init\<rparr>)) = Some Boss_init"
  using boss_gate [of "(reset (\<lambda>_. 0) 0)\<lparr>time := 65\<rparr>" "\<lambda>_. 0" 1 "\<lambda>_. False" False]
    boss_gate [of "(reset (\<lambda>_. 0) 0)\<lparr>time := 49\<rparr>" "\<lambda>_. 0" 1 "\<lambda>_. False" False]
    boss_gate [of "(reset (\<lambda>_. 0) 0)\<lparr>time := 65, boss := Some Boss_init\<rparr>" "\<lambda>_. 0" 1 "\<lambda>_. False" False]
  by (simp add: reset_def Player_init_def)

lemmas geometry_defs =
  hits_def collidepoint_def colliderect_def center_def set_center_def Rect_init_def py_int_def

lemma hostile_loop_char:
  "hostile_loop ebs g =
     (if \<exists>eb \<in> set ebs. hits eb (rect (player g))
      then (takeWhile (\<lambda>eb. \<not> hits eb (rect (player g))) ebs
              @ tl (dropWhile (\<lambda>eb. \<not> hits eb (rect (player g))) ebs),
            player_hit (hd (dropWhile (\<lambda>eb. \<not> hits eb (rect (player g))) ebs)) g)
      else (ebs, g))"
  by (induction ebs) (simp_all add: split_beta)

lemma length_takeWhile_tl_dropWhile:
  "\<exists>x \<in> set xs. \<not> P x \<Longrightarrow> length (takeWhile P xs @ tl (dropWhile P xs)) + 1 = length xs"
  by (induction xs) auto

text \<open>
  C5. Hostile bullets are tested against the player only while the invulnerability is at
  most 0. Then the first bullet of the hostile group whose centre is inside the player's
  rectangle, and no other, is processed and removed: with shield remaining above 0 the
  shield loses 0.35, not below 0, and the hit points stay; otherwise the hit points drop
  by 1; in both cases the invulnerability is set to 0.5. With shield remaining 0.2 the
  player ends with shield 0 and unchanged hit points.
\<close>

theorem hostile_hit_rule:
  "(0 < invuln (player g) \<longrightarrow> enemy_bullets_vs_player g = g)
   \<and> (invuln (player g) \<le> 0 \<and> (\<forall>eb \<in> set (enemy_bullets g). \<not> hits eb (rect (player g)))
        \<longrightarrow> enemy_bullets_vs_player g = g)
   \<and> (invuln (player g) \<le> 0 \<and> (\<exists>eb \<in> set (enemy_bullets g). hits eb (rect (player g))) \<longrightarrow>
        enemy_bullets (enemy_bullets_vs_player g)
          = takeWhile (\<lambda>eb. \<not> hits eb (rect (player g))) (enemy_bullets g)
              @ tl (dropWhile (\<lambda>eb. \<not> hits eb (rect (player g))) (enemy_bullets g))
        \<and> length (enemy_bullets (enemy_bullets_vs_player g)) + 1 = length (enemy_bullets g)
        \<and> (0 < shield_timer (player g) \<longrightarrow>
              shield_timer (player (enemy_bullets_vs_player g))
                = max 0 (shield_timer (player g) - 35 / 100)
              \<and> hp (player (enemy_bullets_vs_player g)) = hp (player g))
        \<and> (shield_timer (player g) \<le> 0 \<longrightarrow>
              hp (player (enemy_bullets_vs_player g)) = hp (player g) - 1
              \<and> shield_timer (player (enemy_bullets_vs_player g)) = shield_timer (player g))
        \<and> (shield_timer (player g) = 2 / 10 \<longrightarrow>
              shield_timer (player (enemy_bullets_vs_player g)) = 0
              \<and> hp (player (enemy_bullets_vs_player g)) = hp (player g))
        \<and> invuln (player (enemy_bullets_vs_player g)) = 1 / 2)"
proof -
  let ?P = "\<lambda>eb. \<not> hits eb (rect (player g))"
  have a: "enemy_bullets_vs_player g = g" if "0 < invuln (player g)"
    using that by (simp add: enemy_bullets_vs_player_def)
  have b: "enemy_bullets_vs_player g = g"
    if "invuln (player g) \<le> 0 \<and> (\<forall>eb \<in> set (enemy_bullets g). \<not> hits eb (rect (player g)))"
    using that by (simp add: enemy_bullets_vs_player_def hostile_loop_char)
  have c: "enemy_bullets_vs_player g =
             (player_hit (hd (dropWhile ?P (enemy_bullets g))) g)
               \<lparr>enemy_bullets := takeWhile ?P (enemy_bullets g) @ tl (dropWhile ?P (enemy_bullets g))\<rparr>"
    if "invuln (player g) \<le> 0 \<and> (\<exists>eb \<in> set (enemy_bullets g). hits eb (rect (player g)))"
    using that by (simp add: enemy_bullets_vs_player_def hostile_loop_char)
  have d: "length (takeWhile ?P (enemy_bullets g) @ tl (dropWhile ?P (enemy_bullets g))) + 1
             = length (enemy_bullets g)"
    if "\<exists>eb \<in> set (enemy_bullets g). hits eb (rect (player g))"
    using that by (intro length_takeWhile_tl_dropWhile) simp
  show ?thesis
  proof (intro conjI impI)
    show "enemy_bullets_vs_player g = g" if "0 < invuln (player g)" using that by (rule a)
    show "enemy_bullets_vs_player g = g"
      if "invuln (player g) \<le> 0 \<and> (\<forall>eb \<in> set (enemy_bullets g). \<not> hits eb (rect (player g)))"
      using that by (rule b)
  next
    assume h: "invuln (player g) \<le> 0 \<and> (\<exists>eb \<in> set (enemy_bullets g). hits eb (rect (player g)))"
    show "enemy_bullets (enemy_bullets_vs_player g)
            = takeWhile ?P (enemy_bullets g) @ tl (dropWhile ?P (enemy_bullets g))"
      by (simp add: c [OF h])
    show "length (enemy_bullets (enemy_bullets_vs_player g)) + 1 = length (enemy_bullets g)"
      using d h by (simp add: c [OF h])
    show "invuln (player (enemy_bullets_vs_player g)) = 1 / 2"
      by (simp add: c [OF h] player_hit_def Let_def)
    show "shield_timer (player (enemy_bullets_vs_player g)) = max 0 (shield_timer (player g) - 35 / 100)"
      if "0 < shield_timer (player g)"
      using that by (simp add: c [OF h] player_hit_def Let_def)
    show "hp (player (enemy_bullets_vs_player g)) = hp (player g)"
      if "0 < shield_timer (player g)"
      using that by (simp add: c [OF h] player_hit_def Let_def)
    show "hp (player (enemy_bullets_vs_player g)) = hp (player g) - 1"
      if "shield_timer (player g) \<le> 0"
      using that by (simp add: c [OF h] player_hit_def Let_def)
    show "shield_timer (player (enemy_bullets_vs_player g)) = shield_timer (player g)"
      if "shield_timer (player g) \<le> 0"
      using that by (simp add: c [OF h] player_hit_def Let_def)
    show "shield_timer (player (enemy_bullets_vs_player g)) = 0"
      if "shield_timer (player g) = 2 / 10"
      using that by (simp add: c [OF h] player_hit_def Let_def)
    show "hp (player (enemy_bullets_vs_player g)) = hp (player g)"
      if "shield_timer (player g) = 2 / 10"
      using that by (simp add: c [OF h] player_hit_def Let_def)
  qed
qed

theorem hostile_hit_rule_witness:
  "invuln (player shielded_under_fire) \<le> 0
   \<and> map (\<lambda>eb. hits eb (rect (player shielded_under_fire))) (enemy_bullets shielded_under_fire)
       = [True, True]
   \<and> shield_timer (player shielded_under_fire) = 2 / 10
   \<and> enemy_bullets (enemy_bullets_vs_player shielded_under_fire) = [hostile_at (451, 1061)]
   \<and> shield_timer (player (enemy_bullets_vs_player shielded_under_fire)) = 0
   \<and> hp (player (enemy_bullets_vs_player shielded_under_fire)) = hp (player shielded_under_fire)
   \<and> invuln (player (enemy_bullets_vs_player shielded_under_fire)) = 1 / 2"
  using hostile_hit_rule [of shielded_under_fire]
  by (simp add: shielded_under_fire_def hostile_at_def reset_def Player_init_def Bullet_init_def
        geometry_defs config_defs)

lemma ram_loop_char:
  "ram_loop pr es g =
     (filter (\<lambda>e. \<not> colliderect pr (e_rect e)) es,
      foldl (\<lambda>h e. ram e h) g (filter (\<lambda>e. colliderect pr (e_rect e)) es))"
  by (induction es arbitrary: g) (simp_all add: split_beta)

lemma ram_no_shield:
  "shield_timer (player g) \<le> 0 \<Longrightarrow>
     hp (player (ram e g)) = hp (player g) - 1
     \<and> shield_timer (player (ram e g)) = shield_timer (player g)"
  by (simp add: ram_def Let_def)

lemma foldl_ram_no_shield:
  "shield_timer (player g) \<le> 0 \<Longrightarrow>
     hp (player (foldl (\<lambda>h e. ram e h) g es)) = hp (player g) - int (length es)
     \<and> shield_timer (player (foldl (\<lambda>h e. ram e h) g es)) = shield_timer (player g)"
proof (induction es arbitrary: g)
  case Nil
  then show ?case by simp
next
  case (Cons e es)
  have s: "shield_timer (player (ram e g)) \<le> 0" using Cons.prems by (simp add: ram_no_shield)
  show ?case using Cons.IH [OF s] Cons.prems by (simp add: ram_no_shield)
qed

lemma foldl_ram_invuln_free:
  "hp (player g) = hp (player h) \<Longrightarrow> shield_timer (player g) = shield_timer (player h) \<Longrightarrow>
     hp (player (foldl (\<lambda>h e. ram e h) g es)) = hp (player (foldl (\<lambda>h e. ram e h) h es))
     \<and> shield_timer (player (foldl (\<lambda>h e. ram e h) g es))
         = shield_timer (player (foldl (\<lambda>h e. ram e h) h es))"
proof (induction es arbitrary: g h)
  case Nil
  then show ?case by simp
next
  case (Cons e es)
  have "hp (player (ram e g)) = hp (player (ram e h))"
    and "shield_timer (player (ram e g)) = shield_timer (player (ram e h))"
    using Cons.prems by (simp_all add: ram_def Let_def)
  then show ?case using Cons.IH [of "ram e g" "ram e h"] by simp
qed

lemma foldl_ram_invuln:
  "es \<noteq> [] \<Longrightarrow> invuln (player (foldl (\<lambda>h e. ram e h) g es)) = 6 / 10"
  by (induction es arbitrary: g rule: rev_induct) (simp_all add: ram_def Let_def)

text \<open>
  C6. The ramming step removes every enemy whose rectangle overlaps the player's and
  applies \<open>ram\<close> once for each of them: with no shield the hit points drop by the number
  of ramming enemies (two enemies cost 2). The step does not read the invulnerability:
  changing it beforehand changes neither the hit points nor the enemies afterwards, and
  any ram sets it to 0.6.
\<close>

theorem ramming_rule:
  "enemies (ramming g) = filter (\<lambda>e. \<not> colliderect (rect (player g)) (e_rect e)) (enemies g)
   \<and> (shield_timer (player g) \<le> 0 \<longrightarrow>
        hp (player (ramming g))
          = hp (player g)
            - int (length (filter (\<lambda>e. colliderect (rect (player g)) (e_rect e)) (enemies g))))
   \<and> (\<forall>v. hp (player (ramming (g\<lparr>player := (player g)\<lparr>invuln := v\<rparr>\<rparr>))) = hp (player (ramming g))
           \<and> enemies (ramming (g\<lparr>player := (player g)\<lparr>invuln := v\<rparr>\<rparr>)) = enemies (ramming g))
   \<and> ((\<exists>e \<in> set (enemies g). colliderect (rect (player g)) (e_rect e)) \<longrightarrow>
        invuln (player (ramming g)) = 6 / 10)"
proof -
  let ?hit = "filter (\<lambda>e. colliderect (rect (player g)) (e_rect e)) (enemies g)"
  have r: "ramming h = (foldl (\<lambda>h e. ram e h) h
                          (filter (\<lambda>e. colliderect (rect (player h)) (e_rect e)) (enemies h)))
                       \<lparr>enemies := filter (\<lambda>e. \<not> colliderect (rect (player h)) (e_rect e)) (enemies h)\<rparr>"
    for h by (simp add: ramming_def ram_loop_char)
  have 1: "enemies (ramming g) = filter (\<lambda>e. \<not> colliderect (rect (player g)) (e_rect e)) (enemies g)"
    by (simp add: r)
  have 2: "hp (player (ramming g)) = hp (player g) - int (length ?hit)"
    if "shield_timer (player g) \<le> 0"
    using foldl_ram_no_shield [OF that, of ?hit] by (simp add: r)
  have 3: "hp (player (ramming (g\<lparr>player := (player g)\<lparr>invuln := v\<rparr>\<rparr>))) = hp (player (ramming g))
           \<and> enemies (ramming (g\<lparr>player := (player g)\<lparr>invuln := v\<rparr>\<rparr>)) = enemies (ramming g)" for v
    using foldl_ram_invuln_free [of "g\<lparr>player := (player g)\<lparr>invuln := v\<rparr>\<rparr>" g ?hit]
    by (simp add: r)
  have 4: "invuln (player (ramming g)) = 6 / 10"
    if "\<exists>e \<in> set (enemies g). colliderect (rect (player g)) (e_rect e)"
  proof -
    have "?hit \<noteq> []" using that by (simp add: filter_empty_conv)
    then show ?thesis using foldl_ram_invuln [of ?hit g] by (simp add: r)
  qed
  show ?thesis using 1 2 3 4 by blast
qed

theorem ramming_rule_witness:
  "shield_timer (player rammed_twice) \<le> 0
   \<and> 0 < invuln (player rammed_twice)
   \<and> (\<exists>e \<in> set (enemies rammed_twice). colliderect (rect (player rammed_twice)) (e_rect e))
   \<and> enemies (ramming rammed_twice) = [enemy_at (100, 100)]
   \<and> hp (player rammed_twice) = 5
   \<and> hp (player (ramming rammed_twice)) = 3
   \<and> invuln (player (ramming rammed_twice)) = 6 / 10"
  using ramming_rule [of rammed_twice]
  by (simp add: rammed_twice_def enemy_at_def quiet_def reset_def Player_init_def Enemy_init_def
        geometry_defs config_defs uniform_def Timer_set_def)

text \<open>
  C3, as stated, fails: the test of the source is not the overlap of the two bounding
  rectangles. A friendly bullet whose rectangle overlaps the boss's while its centre is
  outside it passes: the boss, the score, the effects and the bullet are as before.
\<close>

theorem boss_overlap_counterexample:
  "all_bullets graze_boss = [friendly_at (450, 117)]
   \<and> friendly (friendly_at (450, 117))
   \<and> map o_rect (case boss graze_boss of None \<Rightarrow> [] | Some bs \<Rightarrow> [bs]) = [Rect_init 370 120 160 160]
   \<and> colliderect (b_rect (friendly_at (450, 117))) (Rect_init 370 120 160 160)
   \<and> all_bullets (bullets_vs_targets quiet graze_boss) = [friendly_at (450, 117)]
   \<and> boss (bullets_vs_targets quiet graze_boss) = boss graze_boss
   \<and> score (player (bullets_vs_targets quiet graze_boss)) = score (player graze_boss)
   \<and> effects (bullets_vs_targets quiet graze_boss) = effects graze_boss"
  by (simp add: graze_boss_def friendly_at_def quiet_def reset_def Player_init_def Boss_init_def
        Bullet_init_def bullets_vs_targets_def shot_step_def geometry_defs config_defs)

text \<open>
  C3, amended. For a bullet whose rectangle's centre lies in the boss's rectangle (the
  collision test of the source), the step of the friendly-bullet loop lowers the boss's hit points by the
  bullet's damage, adds 2 to the score, appends a hit effect, bumps the shake by 1.2 and
  drops the bullet from its group; the enemies are left as they were, also those the
  bullet overlaps, and the loop goes on with the remaining bullets.
\<close>

theorem boss_hit_rule:
  assumes "boss g = Some bs" and "hits b (o_rect bs)"
  shows "shot_step R b g = (False, boss_hit b bs g)
         \<and> boss (boss_hit b bs g) = Some (bs\<lparr>o_hp := o_hp bs - dmg b\<rparr>)
         \<and> score (player (boss_hit b bs g)) = score (player g) + 2
         \<and> effects (boss_hit b bs g) = effects g @ [Explosion_init (b_pos b) YELLOW (2 / 10)]
         \<and> shake (boss_hit b bs g) = bump (12 / 10) (shake g)
         \<and> enemies (boss_hit b bs g) = enemies g
         \<and> (friendly b \<longrightarrow> shots_loop R (b # rest) g = shots_loop R rest (boss_hit b bs g))"
  using assms by (simp add: shot_step_def boss_hit_def split_beta)

theorem boss_hit_rule_witness:
  "boss boss_under_fire = Some (Boss_init\<lparr>o_pos := (450, 200), o_rect := Rect_init 370 120 160 160\<rparr>)
   \<and> hits (friendly_at (450, 220)) (Rect_init 370 120 160 160)
   \<and> friendly (friendly_at (450, 220))
   \<and> map (\<lambda>e. hits (friendly_at (450, 220)) (e_rect e)) (enemies boss_under_fire) = [True]
   \<and> fst (shots_loop quiet (all_bullets boss_under_fire) boss_under_fire) = []
   \<and> map o_hp (case boss (snd (shots_loop quiet (all_bullets boss_under_fire) boss_under_fire))
                 of None \<Rightarrow> [] | Some bs \<Rightarrow> [bs]) = [119]
   \<and> score (player (snd (shots_loop quiet (all_bullets boss_under_fire) boss_under_fire))) = 2
   \<and> enemies (snd (shots_loop quiet (all_bullets boss_under_fire) boss_under_fire))
       = [enemy_at (450, 210)]"
  using boss_hit_rule [of boss_under_fire
      "Boss_init\<lparr>o_pos := (450, 200), o_rect := Rect_init 370 120 160 160\<rparr>"
      "friendly_at (450, 220)" quiet "[]"]
  by (simp add: boss_under_fire_def friendly_at_def enemy_at_def quiet_def reset_def Player_init_def
        Enemy_init_def Boss_init_def Bullet_init_def boss_hit_def geometry_defs config_defs
        uniform_def Timer_set_def)

lemma enemy_hit_kill:
  assumes "e_hp e - dmg b \<le> 0"
  shows "fst (enemy_hit R b e g) = None"
    and "score (player (snd (enemy_hit R b e g))) = score (player g) + 10"
    and "floaters (snd (enemy_hit R b e g)) = floaters g @ [FloatingText_init (e_pos e) ''+10'' YELLOW]"
    and "shake (snd (enemy_hit R b e g)) = bump 5 (shake g)"
    and "effects (snd (enemy_hit R b e g)) = effects g @ [Explosion_init (b_pos b) ORANGE (2 / 10)]"
    and "powerups (snd (enemy_hit R b e g)) =
           (if R (rng g) < POWERUP_DROP_CHANCE
            then powerups g @ [PowerUp_init R (rng g + 1) (e_pos e)] else powerups g)"
  using assms by (simp_all add: enemy_hit_def Let_def)

lemma enemy_hit_survive:
  assumes "\<not> e_hp e - dmg b \<le> 0"
  shows "fst (enemy_hit R b e g) = Some (e\<lparr>e_hp := e_hp e - dmg b\<rparr>)"
    and "score (player (snd (enemy_hit R b e g))) = score (player g)"
    and "floaters (snd (enemy_hit R b e g)) = floaters g"
    and "effects (snd (enemy_hit R b e g)) = effects g @ [Explosion_init (b_pos b) ORANGE (2 / 10)]"
  using assms by (simp_all add: enemy_hit_def Let_def)

lemma hit_list_loop_enemies:
  "fst (hit_list_loop R b es g) =
     concat (map (\<lambda>e. if hits b (e_rect e)
                       then (if e_hp e - dmg b \<le> 0 then [] else [e\<lparr>e_hp := e_hp e - dmg b\<rparr>])
                       else [e]) es)"
proof (induction es arbitrary: g)
  case Nil
  show ?case by simp
next
  case (Cons e es)
  show ?case
  proof (cases "hits b (e_rect e)")
    case False
    then show ?thesis using Cons.IH [of g] by (simp add: split_beta)
  next
    case True
    show ?thesis
    proof (cases "e_hp e - dmg b \<le> 0")
      case k: True
      show ?thesis using True k Cons.IH [of "snd (enemy_hit R b e g)"]
        by (simp add: split_beta enemy_hit_kill(1) [OF k])
    next
      case k: False
      show ?thesis using True k Cons.IH [of "snd (enemy_hit R b e g)"]
        by (simp add: split_beta enemy_hit_survive(1) [OF k])
    qed
  qed
qed

lemma hit_list_loop_counts:
  "score (player (snd (hit_list_loop R b es g)))
     = score (player g)
       + 10 * int (length (filter (\<lambda>e. hits b (e_rect e) \<and> e_hp e - dmg b \<le> 0) es))
   \<and> length (floaters (snd (hit_list_loop R b es g)))
     = length (floaters g) + length (filter (\<lambda>e. hits b (e_rect e) \<and> e_hp e - dmg b \<le> 0) es)
   \<and> length (effects (snd (hit_list_loop R b es g)))
     = length (effects g) + length (filter (\<lambda>e. hits b (e_rect e)) es)"
proof (induction es arbitrary: g)
  case Nil
  show ?case by simp
next
  case (Cons e es)
  show ?case
  proof (cases "hits b (e_rect e)")
    case False
    then show ?thesis using Cons.IH [of g] by (simp add: split_beta)
  next
    case True
    show ?thesis
    proof (cases "e_hp e - dmg b \<le> 0")
      case k: True
      show ?thesis using True k Cons.IH [of "snd (enemy_hit R b e g)"]
        by (simp add: split_beta enemy_hit_kill [OF k])
    next
      case k: False
      show ?thesis using True k Cons.IH [of "snd (enemy_hit R b e g)"]
        by (simp add: split_beta enemy_hit_survive [OF k])
    qed
  qed
qed

text \<open>
  C4, as stated, fails in the same way: an enemy whose rectangle overlaps the bullet's
  while the bullet's centre is outside it takes no damage, and the bullet stays.
\<close>

theorem enemy_overlap_counterexample:
  "all_bullets graze_enemy = [friendly_at (450, 479)]
   \<and> friendly (friendly_at (450, 479))
   \<and> boss graze_enemy = None
   \<and> enemies graze_enemy = [enemy_at (450, 500)]
   \<and> colliderect (b_rect (friendly_at (450, 479))) (e_rect (enemy_at (450, 500)))
   \<and> e_hp (enemy_at (450, 500)) = 2
   \<and> enemies (bullets_vs_targets quiet graze_enemy) = [enemy_at (450, 500)]
   \<and> all_bullets (bullets_vs_targets quiet graze_enemy) = [friendly_at (450, 479)]"
  by (simp add: graze_enemy_def friendly_at_def enemy_at_def quiet_def reset_def Player_init_def
        Enemy_init_def Bullet_init_def bullets_vs_targets_def shot_step_def geometry_defs
        config_defs uniform_def Timer_set_def)

text \<open>
  C4, amended. For a friendly bullet that does not hit the boss: every enemy whose rectangle
  contains the bullet's centre loses the bullet's damage and adds one hit effect; each
  one whose hit points are then at most 0 is removed, adds 10 to the score and one
  floating text, bumps the shake by 5 and drops a power-up exactly when the next draw is
  below \<open>POWERUP_DROP_CHANCE\<close> = 0.10; the other enemies are untouched. The bullet leaves
  its group once, after the whole pass, exactly when it hit some enemy.
\<close>

theorem enemy_hits_rule:
  assumes "friendly b" and "\<forall>bs. boss g = Some bs \<longrightarrow> \<not> hits b (o_rect bs)"
  shows "((\<exists>e \<in> set (enemies g). hits b (e_rect e)) \<longrightarrow>
            shot_step R b g
              = (False, (snd (hit_list_loop R b (enemies g) g))
                          \<lparr>enemies := fst (hit_list_loop R b (enemies g) g)\<rparr>)
            \<and> shots_loop R (b # rest) g
              = shots_loop R rest ((snd (hit_list_loop R b (enemies g) g))
                                     \<lparr>enemies := fst (hit_list_loop R b (enemies g) g)\<rparr>))
         \<and> ((\<forall>e \<in> set (enemies g). \<not> hits b (e_rect e)) \<longrightarrow> shot_step R b g = (True, g))
         \<and> fst (hit_list_loop R b es g)
             = concat (map (\<lambda>e. if hits b (e_rect e)
                               then (if e_hp e - dmg b \<le> 0 then []
                                     else [e\<lparr>e_hp := e_hp e - dmg b\<rparr>])
                               else [e]) es)
         \<and> score (player (snd (hit_list_loop R b es g)))
             = score (player g)
               + 10 * int (length (filter (\<lambda>e. hits b (e_rect e) \<and> e_hp e - dmg b \<le> 0) es))
         \<and> length (floaters (snd (hit_list_loop R b es g)))
             = length (floaters g)
               + length (filter (\<lambda>e. hits b (e_rect e) \<and> e_hp e - dmg b \<le> 0) es)
         \<and> length (effects (snd (hit_list_loop R b es g)))
             = length (effects g) + length (filter (\<lambda>e. hits b (e_rect e)) es)
         \<and> (\<forall>e. e_hp e - dmg b \<le> 0 \<longrightarrow>
               fst (enemy_hit R b e g) = None
               \<and> score (player (snd (enemy_hit R b e g))) = score (player g) + 10
               \<and> floaters (snd (enemy_hit R b e g))
                   = floaters g @ [FloatingText_init (e_pos e) ''+10'' YELLOW]
               \<and> shake (snd (enemy_hit R b e g)) = bump 5 (shake g)
               \<and> powerups (snd (enemy_hit R b e g))
                   = (if R (rng g) < POWERUP_DROP_CHANCE
                      then powerups g @ [PowerUp_init R (rng g + 1) (e_pos e)] else powerups g))"
proof -
  have 1: "shot_step R b g
             = (False, (snd (hit_list_loop R b (enemies g) g))
                         \<lparr>enemies := fst (hit_list_loop R b (enemies g) g)\<rparr>)"
    if "\<exists>e \<in> set (enemies g). hits b (e_rect e)"
    using that assms(2) by (simp add: shot_step_def split_beta split: option.splits)
  have 2: "shots_loop R (b # rest) g
             = shots_loop R rest ((snd (hit_list_loop R b (enemies g) g))
                                    \<lparr>enemies := fst (hit_list_loop R b (enemies g) g)\<rparr>)"
    if "\<exists>e \<in> set (enemies g). hits b (e_rect e)"
    using assms(1) by (simp add: 1 [OF that] split_beta)
  have 3: "shot_step R b g = (True, g)" if "\<forall>e \<in> set (enemies g). \<not> hits b (e_rect e)"
    using that assms(2) by (simp add: shot_step_def split_beta split: option.splits)
  show ?thesis
    using 1 2 3 hit_list_loop_enemies [of R b es g] hit_list_loop_counts [of R b es g]
      enemy_hit_kill [of _ b R g]
    by blast
qed

theorem enemy_hits_rule_witness:
  "friendly (friendly_at (450, 500))
   \<and> boss three_in_line = None
   \<and> length (filter (\<lambda>e. hits (friendly_at (450, 500)) (e_rect e)) (enemies three_in_line)) = 3
   \<and> map e_hp (enemies three_in_line) = [2, 1, 2, 2]
   \<and> map e_hp (fst (hit_list_loop quiet (friendly_at (450, 500)) (enemies three_in_line)
                       three_in_line)) = [1, 2, 1]
   \<and> score (player (snd (hit_list_loop quiet (friendly_at (450, 500)) (enemies three_in_line)
                            three_in_line))) = 10
   \<and> length (effects (snd (hit_list_loop quiet (friendly_at (450, 500)) (enemies three_in_line)
                             three_in_line))) = 3
   \<and> fst (shot_step quiet (friendly_at (450, 500)) three_in_line) = False"
  using enemy_hits_rule [of "friendly_at (450, 500)" three_in_line quiet "[]" "enemies three_in_line"]
  by (simp add: three_in_line_def friendly_at_def enemy_at_def quiet_def reset_def Player_init_def
        Enemy_init_def Bullet_init_def geometry_defs config_defs uniform_def Timer_set_def)

lemma all_bullets_loop_keeps:
  "set eb \<subseteq> set (snd (all_bullets_loop dt bs (kept, eb)))"
proof (induction bs arbitrary: kept eb)
  case Nil
  show ?case by simp
next
  case (Cons b bs)
  show ?case
  proof (cases "friendly b")
    case True
    then show ?thesis using Cons.IH by (simp add: split_beta Bullet_update_friendly)
  next
    case False
    have "set (eb @ [snd (Bullet_update dt b)])
            \<subseteq> set (snd (all_bullets_loop dt bs (kept, eb @ [snd (Bullet_update dt b)])))"
      by (rule Cons.IH)
    then show ?thesis using False by (simp add: split_beta Bullet_update_friendly)
  qed
qed

lemma all_bullets_loop_moves:
  "b \<in> set bs \<Longrightarrow> \<not> friendly b \<Longrightarrow>
     snd (Bullet_update dt b) \<in> set (snd (all_bullets_loop dt bs (kept, eb)))"
proof (induction bs arbitrary: kept eb)
  case Nil
  then show ?case by simp
next
  case (Cons c bs)
  show ?case
  proof (cases "b = c")
    case True
    have "snd (Bullet_update dt b) \<in> set (eb @ [snd (Bullet_update dt b)])" by simp
    then have "snd (Bullet_update dt b)
                 \<in> set (snd (all_bullets_loop dt bs (kept, eb @ [snd (Bullet_update dt b)])))"
      using all_bullets_loop_keeps by blast
    then show ?thesis using True Cons.prems(2) by (simp add: split_beta Bullet_update_friendly)
  next
    case False
    then have "b \<in> set bs" using Cons.prems(1) by simp
    then show ?thesis using Cons.IH Cons.prems(2) by (simp add: split_beta)
  qed
qed

lemma update_all_keeps:
  "x \<in> set xs \<Longrightarrow> fst (upd x) \<Longrightarrow> snd (upd x) \<in> set (update_all upd xs)"
  by (auto simp: update_all_def)

lemma Enemy_update_keeps:
  "set eb \<subseteq> set (fst (snd (snd (Enemy_update R dt e eb n))))"
  by (auto simp: Enemy_update_def Let_def)

lemma enemies_loop_keeps:
  "set eb \<subseteq> set (fst (snd (enemies_loop R dt es (kept, eb, n))))"
proof (induction es arbitrary: kept eb n)
  case Nil
  show ?case by simp
next
  case (Cons e es)
  have "set (fst (snd (snd (Enemy_update R dt e eb n))))
          \<subseteq> set (fst (snd (enemies_loop R dt es
               (if fst (Enemy_update R dt e eb n) then kept @ [fst (snd (Enemy_update R dt e eb n))]
                else kept,
                fst (snd (snd (Enemy_update R dt e eb n))),
                snd (snd (snd (Enemy_update R dt e eb n)))))))"
    by (rule Cons.IH)
  then have "set eb \<subseteq> set (fst (snd (enemies_loop R dt es
               (if fst (Enemy_update R dt e eb n) then kept @ [fst (snd (Enemy_update R dt e eb n))]
                else kept,
                fst (snd (snd (Enemy_update R dt e eb n))),
                snd (snd (snd (Enemy_update R dt e eb n)))))))"
    using Enemy_update_keeps by blast
  then show ?case by (simp add: split_beta)
qed

lemma Boss_update_keeps:
  "set eb \<subseteq> set (fst (snd (snd (Boss_update R dt bs eb fx n))))"
  by (auto simp: Boss_update_def Let_def split_beta)

lemma update_groups_moves:
  assumes "b \<in> set (all_bullets g)" and "\<not> friendly b"
    and "fst (Bullet_update dt (snd (Bullet_update dt b)))"
  shows "snd (Bullet_update dt (snd (Bullet_update dt b))) \<in> set (enemy_bullets (update_groups R dt g))"
proof -
  let ?eb0 = "snd (all_bullets_loop dt (all_bullets g) ([], enemy_bullets g))"
  let ?eb1 = "update_all (Bullet_update dt) ?eb0"
  let ?el = "enemies_loop R dt (enemies g) ([], ?eb1, rng g)"
  let ?c = "snd (Bullet_update dt (snd (Bullet_update dt b)))"
  have "snd (Bullet_update dt b) \<in> set ?eb0"
    using assms(1,2) by (rule all_bullets_loop_moves)
  then have "?c \<in> set ?eb1" using assms(3) by (rule update_all_keeps)
  then have 2: "?c \<in> set (fst (snd ?el))" using enemies_loop_keeps by blast
  show ?thesis
  proof (cases "boss g")
    case None
    then show ?thesis using 2 by (simp add: update_groups_def Let_def split_beta)
  next
    case (Some bs)
    have "?c \<in> set (fst (snd (snd (Boss_update R dt bs (fst (snd ?el))
                  (update_all (Explosion_update dt) (effects g)) (snd (snd ?el))))))"
      using 2 Boss_update_keeps by blast
    then show ?thesis using Some by (simp add: update_groups_def Let_def split_beta)
  qed
qed

lemma filed_fire: "filed g \<Longrightarrow> filed (fire g)"
  using fire_all_bullets [of g] by (simp add: filed_def fire_fields)

lemma filed_flags:
  "filed (g\<lparr>running := r\<rparr>) = filed g"
  "filed (g\<lparr>paused := r\<rparr>) = filed g"
  "filed (g\<lparr>rng := k\<rparr>) = filed g"
  by (simp_all add: filed_def)

lemma filed_handle_event: "filed g \<Longrightarrow> filed (handle_event e g)"
  by (cases e) (simp_all add: handle_event_def filed_fire filed_flags)

lemma filed_events: "filed g \<Longrightarrow> filed (events es g)"
  by (induction es arbitrary: g) (simp_all add: filed_handle_event)

lemma filed_collisions:
  assumes "filed g" shows "filed (collisions R g)"
proof -
  have a: "set (all_bullets (collisions R g)) \<subseteq> set (all_bullets g)"
    and b: "set (enemy_bullets (collisions R g)) \<subseteq> set (enemy_bullets g)"
    using resolves_collisions [of g R] by (simp_all add: resolves_def)
  have "\<forall>c \<in> set (all_bullets (collisions R g)). friendly c"
    using a assms unfolding filed_def by (meson subsetD)
  moreover have "\<forall>c \<in> set (enemy_bullets (collisions R g)). \<not> friendly c"
    using b assms unfolding filed_def by (meson subsetD)
  ultimately show ?thesis by (simp add: filed_def)
qed

lemma filed_update: assumes "filed g" shows "filed (update R dt pr m g)"
proof (cases "game_over g")
  case True
  then show ?thesis using assms by (simp add: update_def)
next
  case False
  let ?a = "update_groups R dt (advance R dt pr m g)"
  have "\<forall>b \<in> set (enemy_bullets (advance R dt pr m g)). \<not> friendly b"
    using assms by (simp add: filed_def advance_fields)
  then have "\<forall>b \<in> set (enemy_bullets ?a). \<not> friendly b"
    by (rule update_groups_enemy_bullets)
  then have "filed ?a"
    using update_groups_all_bullets [of R dt "advance R dt pr m g"] by (simp add: filed_def)
  then have "filed (collisions R ?a)" by (rule filed_collisions)
  then show ?thesis using False by (simp add: update_alt filed_def check_game_over_fields)
qed

lemma filed_frame: assumes "filed g" shows "filed (frame R fi g)"
proof -
  have e: "filed (events (evs fi) g)" using assms by (rule filed_events)
  have "frame R fi g =
          draw (if \<not> paused (events (evs fi) g)
                then update R (real (ms fi) / 1000) (keys fi) (mouse fi) (events (evs fi) g)
                else events (evs fi) g)"
    by (simp add: frame_def Let_def)
  then show ?thesis using e filed_update [OF e] by (simp add: draw_def filed_flags)
qed

lemma filed_reachable: "reachable R g \<Longrightarrow> filed g"
proof (induction rule: reachable.induct)
  case (reachable_reset n)
  show ?case by (simp add: filed_def reset_def)
next
  case (reachable_frame g fi)
  then show ?case by (simp add: filed_frame)
qed

text \<open>
  C10. \<open>Bullet.update\<close> does not change the allegiance flag. After the update of the
  groups, whatever the state before, every bullet of \<open>all_bullets\<close> is friendly; the hostile
  group stays hostile; and a hostile bullet that was in \<open>all_bullets\<close> is in the hostile
  group, updated twice in that tick, if the second update leaves it in bounds. In every
  state that \<open>run\<close> reaches from \<open>reset\<close>, both groups hold bullets of their own allegiance
  only, so the collision steps meet each bullet only with the targets of its allegiance.
\<close>

theorem allegiance_sorted:
  "friendly (snd (Bullet_update dt b)) = friendly b
   \<and> (\<forall>c \<in> set (all_bullets (update_groups R dt g)). friendly c)
   \<and> ((\<forall>c \<in> set (enemy_bullets g). \<not> friendly c) \<longrightarrow>
        (\<forall>c \<in> set (enemy_bullets (update_groups R dt g)). \<not> friendly c))
   \<and> (b \<in> set (all_bullets g) \<and> \<not> friendly b
        \<and> fst (Bullet_update dt (snd (Bullet_update dt b))) \<longrightarrow>
        snd (Bullet_update dt (snd (Bullet_update dt b)))
          \<in> set (enemy_bullets (update_groups R dt g)))
   \<and> (reachable R g \<longrightarrow>
        (\<forall>c \<in> set (all_bullets g). friendly c) \<and> (\<forall>c \<in> set (enemy_bullets g). \<not> friendly c))"
proof (intro conjI impI)
  show "friendly (snd (Bullet_update dt b)) = friendly b" by (rule Bullet_update_friendly)
  show "\<forall>c \<in> set (all_bullets (update_groups R dt g)). friendly c"
    by (rule update_groups_all_bullets)
  show "\<forall>c \<in> set (enemy_bullets (update_groups R dt g)). \<not> friendly c"
    if "\<forall>c \<in> set (enemy_bullets g). \<not> friendly c"
    using that by (rule update_groups_enemy_bullets)
  show "snd (Bullet_update dt (snd (Bullet_update dt b))) \<in> set (enemy_bullets (update_groups R dt g))"
    if "b \<in> set (all_bullets g) \<and> \<not> friendly b \<and> fst (Bullet_update dt (snd (Bullet_update dt b)))"
    using that by (intro update_groups_moves) simp_all
  show "\<forall>c \<in> set (all_bullets g). friendly c" if "reachable R g"
    using filed_reachable [OF that] by (simp add: filed_def)
  show "\<forall>c \<in> set (enemy_bullets g). \<not> friendly c" if "reachable R g"
    using filed_reachable [OF that] by (simp add: filed_def)
qed

theorem allegiance_sorted_witness:
  "hostile_at (450, 500) \<in> set (all_bullets misfiled)
   \<and> \<not> friendly (hostile_at (450, 500))
   \<and> fst (Bullet_update (1 / 50) (snd (Bullet_update (1 / 50) (hostile_at (450, 500)))))
   \<and> enemy_bullets misfiled = []
   \<and> reachable quiet (reset quiet 0)
   \<and> list_all friendly (all_bullets (update_groups quiet (1 / 50) misfiled))
   \<and> list_all (\<lambda>c. \<not> friendly c) (enemy_bullets (update_groups quiet (1 / 50) misfiled))
   \<and> snd (Bullet_update (1 / 50) (snd (Bullet_update (1 / 50) (hostile_at (450, 500)))))
       \<in> set (enemy_bullets (update_groups quiet (1 / 50) misfiled))
   \<and> list_all friendly (all_bullets (reset quiet 0))"
  using allegiance_sorted [of "1 / 50" "hostile_at (450, 500)" quiet misfiled]
    allegiance_sorted [of "1 / 50" "hostile_at (450, 500)" quiet "reset quiet 0"]
    reachable_reset [of quiet 0]
  by (simp add: misfiled_def hostile_at_def friendly_at_def reset_def Bullet_init_def Bullet_update_def
        vadd_def vscale_def geometry_defs config_defs list_all_iff)

lemma stars_loop_replicate:
  "y + v * dt \<le> real_of_int HEIGHT \<Longrightarrow>
     stars_loop R dt (replicate k (x, y)) (replicate k v) n = (replicate k (x, y + v * dt), n)"
  by (induction k) (simp_all add: star_step_def)

lemma reset_zero:
  assumes "\<And>k. k < 360 \<Longrightarrow> R k = 0"
  shows "reset R 0 =
     \<lparr>player = Player_init, all_bullets = [], enemy_bullets = [], enemies = [], powerups = [],
      effects = [], floaters = [], boss = None,
      spawn_t = 1, time = 0, running = True, paused = False, game_over = False,
      shake = 0,
      stars = replicate STAR_COUNT (0, 0),
      star_speed = replicate STAR_COUNT 60,
      rng = 360\<rparr>"
proof -
  have a: "map (\<lambda>i. (real_of_int (randrange 0 WIDTH (R (0 + 2 * i))),
                      real_of_int (randrange 0 HEIGHT (R (0 + 2 * i + 1))))) [0..<STAR_COUNT]
           = map (\<lambda>i. (0, 0)) [0..<STAR_COUNT]"
    by (rule map_cong) (simp_all add: assms STAR_COUNT_def randrange_def)
  have b: "map (\<lambda>i. uniform 60 200 (R (0 + 2 * STAR_COUNT + i))) [0..<STAR_COUNT]
           = map (\<lambda>i. 60) [0..<STAR_COUNT]"
    by (rule map_cong) (simp_all add: assms STAR_COUNT_def uniform_def)
  show ?thesis
    unfolding reset_def a b by (simp add: map_replicate_const STAR_COUNT_def Timer_set_def)
qed

lemma reset_duel:
  "reset duel 0 =
     \<lparr>player = Player_init, all_bullets = [], enemy_bullets = [], enemies = [], powerups = [],
      effects = [], floaters = [], boss = None,
      spawn_t = 1, time = 0, running = True, paused = False, game_over = False,
      shake = 0,
      stars = replicate STAR_COUNT (0, 0),
      star_speed = replicate STAR_COUNT 60,
      rng = 360\<rparr>"
  by (rule reset_zero) (simp add: duel_def)

lemma reset_quiet:
  "reset quiet 0 =
     \<lparr>player = Player_init, all_bullets = [], enemy_bullets = [], enemies = [], powerups = [],
      effects = [], floaters = [], boss = None,
      spawn_t = 1, time = 0, running = True, paused = False, game_over = False,
      shake = 0,
      stars = replicate STAR_COUNT (0, 0),
      star_speed = replicate STAR_COUNT 60,
      rng = 360\<rparr>"
  by (rule reset_zero) (simp add: quiet_def)

lemmas eval_defs =
  WIDTH_def HEIGHT_def PLAYER_SPEED_def PLAYER_SPEED_SLOW_def PLAYER_RADIUS_def
  PLAYER_FIRE_COOLDOWN_def PLAYER_MAX_HP_def PLAYER_SHOT_SPEED_def PLAYER_SHOT_DMG_def
  ENEMY_MIN_SPEED_def ENEMY_MAX_SPEED_def ENEMY_SPAWN_EVERY_def ENEMY_RADIUS_def
  ENEMY_HP_def BOSS_HP_def BOSS_SPEED_def BOSS_RADIUS_def BOSS_COOLDOWN_def
  POWERUP_RADIUS_def POWERUP_DROP_CHANCE_def POWERUP_LIFETIME_def SHAKE_DECAY_def
  color_defs vadd_def vscale_def length_squared_def normalize_def
  py_int_def Rect_init_def center_def set_center_def collidepoint_def colliderect_def
  uniform_def randrange_def choice_def Timer_update_def Timer_ready_def Timer_set_def
  bump_def CameraShake_update_def offset_draws_def Bullet_init_def Bullet_update_def
  Explosion_init_def Explosion_update_def FloatingText_init_def FloatingText_update_def
  TYPES_def COLORS_def PowerUp_init_def PowerUp_update_def Enemy_init_def Enemy_update_def
  Boss_init_def death_explosions_def
  Player_init_def Player_update_def shot_def try_fire_def
  fire_def update_timers_def spawn_enemies_def boss_spawn_def
  update_all_def update_groups_def hits_def boss_hit_def enemy_hit_def shot_step_def
  bullets_vs_targets_def player_hit_def enemy_bullets_vs_player_def ram_def ramming_def
  pickup_def pickups_def check_game_over_def advance_def collisions_def draw_def
  stars_loop_replicate

lemma frame_alt:
  "frame R fi g =
     draw (if \<not> paused (events (evs fi) g)
           then update R (real (ms fi) / 1000) (keys fi) (mouse fi) (events (evs fi) g)
           else events (evs fi) g)"
  by (simp add: frame_def Let_def)

lemma run_reachable: "reachable R g \<Longrightarrow> reachable R (run R fis g)"
  by (induction fis arbitrary: g) (simp_all add: reachable_frame)

lemma duel_trace:
  "hp (player (run duel duel_frames (reset duel 0))) = - 1"
  by (simp add: duel_frames_def reset_duel frame_alt hold_up_def update_alt eval_defs duel_def)

lemma doomed_tick:
  "hp (player (update quiet (1 / 50) (\<lambda>k. False) False doomed)) = - 1
   \<and> pos (player (update quiet (1 / 50) (\<lambda>k. False) False doomed)) = (450, 1060)
   \<and> effects (update quiet (1 / 50) (\<lambda>k. False) False doomed)
       = [Explosion_init (440, 5261 / 5) ORANGE (35 / 100),
          Explosion_init (460, 5361 / 5) ORANGE (35 / 100)]
         @ replicate 10 (Explosion_init (410, 1020) ORANGE (35 / 100))"
  by (simp add: doomed_def enemy_at_def reset_quiet update_alt eval_defs quiet_def
        map_replicate_const)

lemma healed_tick:
  "hp (player (advance quiet (1 / 50) (\<lambda>k. False) False healed_in_time)) = 1
   \<and> hp (player (ramming (enemy_bullets_vs_player (bullets_vs_targets quiet
        (update_groups quiet (1 / 50)
           (advance quiet (1 / 50) (\<lambda>k. False) False healed_in_time)))))) = - 1
   \<and> hp (player (update quiet (1 / 50) (\<lambda>k. False) False healed_in_time)) = 1
   \<and> \<not> game_over (update quiet (1 / 50) (\<lambda>k. False) False healed_in_time)"
  by (simp add: healed_in_time_def doomed_def enemy_at_def reset_quiet update_alt eval_defs quiet_def)

lemma paused_trace:
  "paused (run quiet [press_p] (reset quiet 0))
   \<and> all_bullets (run quiet [press_p] (reset quiet 0)) = []
   \<and> fire_t (player (run quiet [press_p] (reset quiet 0))) = 0
   \<and> paused (run quiet [press_p, press_space] (reset quiet 0))
   \<and> all_bullets (run quiet [press_p, press_space] (reset quiet 0))
       = map (shot Player_init) [- 14, 0, 14]
   \<and> fire_t (player (run quiet [press_p, press_space] (reset quiet 0))) = 16 / 100"
  by (simp add: reset_quiet frame_alt press_p_def press_space_def handle_event_def fire_def
        try_fire_def draw_def offset_draws_def Timer_ready_def Timer_set_def Player_init_def
        PLAYER_FIRE_COOLDOWN_def shot_def)

lemma handle_event_hp:
  "hp (player (handle_event e g)) = hp (player g) \<and> game_over (handle_event e g) = game_over g"
  by (cases e) (simp_all add: handle_event_def fire_fields)

lemma events_hp:
  "hp (player (events es g)) = hp (player g) \<and> game_over (events es g) = game_over g"
  by (induction es arbitrary: g) (simp_all add: handle_event_hp)

lemma update_hp_max:
  assumes "hp (player g) \<le> PLAYER_MAX_HP"
  shows "hp (player (update R dt pr m g)) \<le> PLAYER_MAX_HP"
proof (cases "game_over g")
  case True
  then show ?thesis using assms by (simp add: update_def)
next
  case False
  let ?a = "update_groups R dt (advance R dt pr m g)"
  have "hp (player ?a) \<le> PLAYER_MAX_HP"
    using assms by (simp add: update_groups_fields advance_fields)
  then have "hp (player (collisions R ?a)) \<le> PLAYER_MAX_HP"
    using resolves_collisions [of ?a R] by (simp add: resolves_def)
  then show ?thesis using False by (simp add: update_alt check_game_over_fields)
qed

lemma hp_inv_update: assumes "hp_inv g" shows "hp_inv (update R dt pr m g)"
proof (cases "game_over g")
  case True
  then show ?thesis using assms by (simp add: update_def)
next
  case False
  show ?thesis
    using assms update_hp_max [of g R dt pr m] update_game_over_flag [OF False, of R dt pr m]
    by (simp add: hp_inv_def)
qed

lemma hp_inv_events: "hp_inv g \<Longrightarrow> hp_inv (events es g)"
  by (simp add: hp_inv_def events_hp)

lemma hp_inv_frame: assumes "hp_inv g" shows "hp_inv (frame R fi g)"
proof -
  have e: "hp_inv (events (evs fi) g)" using assms by (rule hp_inv_events)
  have "hp_inv (draw h) = hp_inv h" for h by (simp add: hp_inv_def draw_def)
  then show ?thesis using e hp_inv_update [OF e] by (simp add: frame_alt)
qed

lemma hp_inv_reachable: "reachable R g \<Longrightarrow> hp_inv g"
proof (induction rule: reachable.induct)
  case (reachable_reset n)
  show ?case by (simp add: hp_inv_def reset_def Player_init_def PLAYER_MAX_HP_def)
next
  case (reachable_frame g fi)
  then show ?case by (simp add: hp_inv_frame)
qed

lemma pickup_loop_hp_max:
  "hp (player g) \<le> PLAYER_MAX_HP \<Longrightarrow> hp (player (pickups g)) \<le> PLAYER_MAX_HP"
  using resolves_pickups [of g] by (simp add: resolves_def)

text \<open>
  C7, as stated, fails: the run \<open>duel_frames\<close> from \<open>reset\<close> ends, at a tick boundary, with
  \<open>-1\<close> hit points (two enemies ram the player in each of the ticks 2, 4 and 6).
\<close>

theorem hp_range_counterexample:
  "reachable duel (run duel duel_frames (reset duel 0))
   \<and> \<not> (0 \<le> hp (player (run duel duel_frames (reset duel 0)))
          \<and> hp (player (run duel duel_frames (reset duel 0))) \<le> PLAYER_MAX_HP)"
  using duel_trace run_reachable [OF reachable_reset, of duel duel_frames 0] by simp

text \<open>
  C7, amended. In every state that \<open>run\<close> reaches from \<open>reset\<close> the player's hit points
  are at most \<open>PLAYER_MAX_HP\<close>; they are positive while the game is not over and at most
  0, possibly negative, once it is over. A heal pickup sets the hit points to
  \<open>min(PLAYER_MAX_HP, hp + 2)\<close>, and the pickup step never takes them above the maximum.
\<close>

theorem hp_range:
  "(reachable R g \<longrightarrow>
      hp (player g) \<le> PLAYER_MAX_HP
      \<and> (\<not> game_over g \<longrightarrow> 0 < hp (player g))
      \<and> (game_over g \<longrightarrow> hp (player g) \<le> 0))
   \<and> (kind p = ''heal'' \<longrightarrow>
        hp (player (pickup p g)) = min PLAYER_MAX_HP (hp (player g) + 2))
   \<and> (hp (player g) \<le> PLAYER_MAX_HP \<longrightarrow> hp (player (pickups g)) \<le> PLAYER_MAX_HP)"
proof (intro conjI impI)
  show "hp (player g) \<le> PLAYER_MAX_HP" if "reachable R g"
    using hp_inv_reachable [OF that] by (simp add: hp_inv_def)
  show "0 < hp (player g)" if "reachable R g" and "\<not> game_over g"
    using hp_inv_reachable [OF that(1)] that(2) by (simp add: hp_inv_def)
  show "hp (player g) \<le> 0" if "reachable R g" and "game_over g"
    using hp_inv_reachable [OF that(1)] that(2) by (simp add: hp_inv_def)
  show "hp (player (pickup p g)) = min PLAYER_MAX_HP (hp (player g) + 2)" if "kind p = ''heal''"
    using that by (simp add: pickup_def Let_def)
  show "hp (player (pickups g)) \<le> PLAYER_MAX_HP" if "hp (player g) \<le> PLAYER_MAX_HP"
    using that by (rule pickup_loop_hp_max)
qed

theorem hp_range_witness:
  "reachable duel (run duel duel_frames (reset duel 0))
   \<and> hp (player (run duel duel_frames (reset duel 0))) \<le> PLAYER_MAX_HP
   \<and> game_over (run duel duel_frames (reset duel 0))
   \<and> reachable duel (reset duel 0)
   \<and> \<not> game_over (reset duel 0)
   \<and> 0 < hp (player (reset duel 0))
   \<and> hp (player (pickup (PowerUp_init (\<lambda>k. 2 / 3) 0 (450, 1060)) (reset duel 0))) = 5
   \<and> hp (player (pickup (PowerUp_init (\<lambda>k. 2 / 3) 0 (450, 1060)) doomed)) = 3"
proof -
  have r: "reachable duel (run duel duel_frames (reset duel 0))"
    by (rule run_reachable [OF reachable_reset])
  have k: "kind (PowerUp_init (\<lambda>k. 2 / 3) 0 (450, 1060)) = ''heal''"
    by (simp add: PowerUp_init_def choice_def TYPES_def Let_def)
  have g: "game_over (run duel duel_frames (reset duel 0))"
  proof (rule ccontr)
    assume "\<not> game_over (run duel duel_frames (reset duel 0))"
    then have "0 < hp (player (run duel duel_frames (reset duel 0)))"
      using hp_range [of duel "run duel duel_frames (reset duel 0)"] r by blast
    then show False using duel_trace by simp
  qed
  show ?thesis
    using r g k hp_range [of duel "run duel duel_frames (reset duel 0)"]
      hp_range [of duel "reset duel 0" "PowerUp_init (\<lambda>k. 2 / 3) 0 (450, 1060)"]
      hp_range [of duel doomed "PowerUp_init (\<lambda>k. 2 / 3) 0 (450, 1060)"]
      reachable_reset [of duel 0]
    by (simp add: reset_duel doomed_def Player_init_def PLAYER_MAX_HP_def)
qed

text \<open>
  C9 fails on the code: \<open>Game.events\<close> handles the fire key while the game is paused.
  From \<open>reset\<close>, a frame with the key-down of P pauses the game; a following frame with
  the key-down of SPACE leaves it paused, yet adds the three bullets of a shot to
  \<open>all_bullets\<close> and sets the fire cooldown to 0.16.
\<close>

theorem paused_fire:
  "paused (run quiet [press_p] (reset quiet 0))
   \<and> all_bullets (run quiet [press_p] (reset quiet 0)) = []
   \<and> fire_t (player (run quiet [press_p] (reset quiet 0))) = 0
   \<and> paused (run quiet [press_p, press_space] (reset quiet 0))
   \<and> length (all_bullets (run quiet [press_p, press_space] (reset quiet 0))) = 3
   \<and> map friendly (all_bullets (run quiet [press_p, press_space] (reset quiet 0)))
       = [True, True, True]
   \<and> fire_t (player (run quiet [press_p, press_space] (reset quiet 0))) = 16 / 100"
  using paused_trace by (simp add: shot_def Bullet_init_def)

text \<open>
  C8, as stated, fails: the hit points are not tested when they reach 0 but once per tick,
  after the pickup step. In the tick from \<open>healed_in_time\<close> the player starts with 1 hit
  point, two rams take it to \<open>-1\<close>, the heal pickup of the same tick brings it to 1, and
  the game is not over at the end of the tick.
\<close>

theorem terminal_entry_counterexample:
  "\<not> game_over healed_in_time
   \<and> hp (player (advance quiet (1 / 50) (\<lambda>k. False) False healed_in_time)) = 1
   \<and> hp (player (ramming (enemy_bullets_vs_player (bullets_vs_targets quiet
        (update_groups quiet (1 / 50)
           (advance quiet (1 / 50) (\<lambda>k. False) False healed_in_time)))))) = - 1
   \<and> hp (player (update quiet (1 / 50) (\<lambda>k. False) False healed_in_time)) = 1
   \<and> \<not> game_over (update quiet (1 / 50) (\<lambda>k. False) False healed_in_time)"
  using healed_tick by (simp add: healed_in_time_def doomed_def reset_def)

theorem terminal_state_witness:
  "\<not> game_over doomed
   \<and> hp (player (update quiet (1 / 50) (\<lambda>k. False) False doomed)) \<le> 0
   \<and> game_over (update quiet (1 / 50) (\<lambda>k. False) False doomed)
   \<and> effects (update quiet (1 / 50) (\<lambda>k. False) False doomed)
       = effects (collisions quiet (update_groups quiet (1 / 50)
                    (advance quiet (1 / 50) (\<lambda>k. False) False doomed)))
         @ replicate 10 (Explosion_init (410, 1020) ORANGE (35 / 100))
   \<and> length (effects (update quiet (1 / 50) (\<lambda>k. False) False doomed)) = 12
   \<and> update quiet 1 (\<lambda>k. True) True (update quiet (1 / 50) (\<lambda>k. False) False doomed)
       = update quiet (1 / 50) (\<lambda>k. False) False doomed
   \<and> \<not> game_over healed_in_time
   \<and> 0 < hp (player (update quiet (1 / 50) (\<lambda>k. False) False healed_in_time))
   \<and> \<not> game_over (update quiet (1 / 50) (\<lambda>k. False) False healed_in_time)
   \<and> effects (update quiet (1 / 50) (\<lambda>k. False) False healed_in_time)
       = effects (collisions quiet (update_groups quiet (1 / 50)
                    (advance quiet (1 / 50) (\<lambda>k. False) False healed_in_time)))"
proof -
  let ?d = "update quiet (1 / 50) (\<lambda>k. False) False doomed"
  let ?e = "update quiet (1 / 50) (\<lambda>k. False) False healed_in_time"
  note d = terminal_state [of doomed quiet "1 / 50" "\<lambda>k. False" False]
  note e = terminal_state [of healed_in_time quiet "1 / 50" "\<lambda>k. False" False]
  note t = terminal_state [of ?d quiet 1 "\<lambda>k. True" True]
  have n: "\<not> game_over doomed" by (simp add: doomed_def reset_def)
  have h: "hp (player ?d) \<le> 0" using doomed_tick by simp
  have p: "pos (player ?d) = (450, 1060)" using doomed_tick by simp
  have g: "game_over ?d" using d n h by blast
  have x: "effects ?d
             = effects (collisions quiet (update_groups quiet (1 / 50)
                          (advance quiet (1 / 50) (\<lambda>k. False) False doomed)))
               @ map (\<lambda>i. Explosion_init
                            (vadd (pos (player ?d))
                               (uniform (- 40) 40
                                  (quiet (rng (collisions quiet (update_groups quiet (1 / 50)
                                            (advance quiet (1 / 50) (\<lambda>k. False) False doomed)))
                                      + 2 * i)),
                                uniform (- 40) 40
                                  (quiet (rng (collisions quiet (update_groups quiet (1 / 50)
                                            (advance quiet (1 / 50) (\<lambda>k. False) False doomed)))
                                      + 2 * i + 1))))
                            ORANGE (35 / 100)) [0..<10]"
    using d n h by blast
  have x': "effects ?d
              = effects (collisions quiet (update_groups quiet (1 / 50)
                           (advance quiet (1 / 50) (\<lambda>k. False) False doomed)))
                @ replicate 10 (Explosion_init (410, 1020) ORANGE (35 / 100))"
    by (subst x) (simp add: p quiet_def uniform_def vadd_def map_replicate_const)
  have l: "length (effects ?d) = 12" using doomed_tick by simp
  have u: "update quiet 1 (\<lambda>k. True) True ?d = ?d" using t g by blast
  have n2: "\<not> game_over healed_in_time" by (simp add: healed_in_time_def doomed_def reset_def)
  have h2: "0 < hp (player ?e)" using healed_tick by simp
  have g2: "\<not> game_over ?e" using healed_tick by simp
  have x2: "effects ?e
              = effects (collisions quiet (update_groups quiet (1 / 50)
                           (advance quiet (1 / 50) (\<lambda>k. False) False healed_in_time)))"
    using e n2 h2 by blast
  show ?thesis using n h g x' l u n2 h2 g2 x2 by blast
qed

end
